theory Spec2Isabelle
  imports Main "HOL-Library.Char_ord" "HOL-Library.List_Lexorder"
begin

section \<open>The syntax trees read by the Extractor\<close>

text \<open>
  \<^verbatim>\<open>main.py\<close> never builds a syntax tree itself: it receives the tree of
  \<^verbatim>\<open>ast.parse\<close> and inspects it. The types below hold the part of Python's
  \<^verbatim>\<open>ast\<close> classes that the code looks at. Strings are ASCII text.

  A constant node carries a Python value. Only the distinction between text, bytes and
  the rest matters to the code (\<^verbatim>\<open>.lower()\<close> exists on the first two only).
\<close>

datatype pyvalue =
    Str string
  | Bytes string
  | IntC int
  | BoolC bool
  | NoneC
  | EllipsisC
  | FloatC string

text \<open>
  Expressions. A keyword argument of a call is the pair of \<^verbatim>\<open>kw.arg\<close> (absent
  for \<^verbatim>\<open>**mapping\<close>) and \<^verbatim>\<open>kw.value\<close>. \<open>OtherExpr\<close> stands for every
  expression class the code does not distinguish.
\<close>

datatype expr =
    Constant pyvalue
  | ListLit "expr list"
  | Tuple "expr list"
  | Name string
  | Attribute expr string
  | Call expr "expr list" "(string option \<times> expr) list"
  | OtherExpr

type_synonym keyword = "string option \<times> expr"

record arg =
  arg :: string

text \<open>
  \<^verbatim>\<open>ast.arguments\<close>: \<open>defaults\<close> holds the default values of the parameters that
  can be passed positionally (\<open>posonlyargs\<close> followed by \<open>args\<close>); when there are
  fewer defaults than parameters they belong to the last ones.
\<close>

record arguments =
  posonlyargs :: "arg list"
  args :: "arg list"
  vararg :: "arg option"
  kwonlyargs :: "arg list"
  kw_defaults :: "expr option list"
  kwarg :: "arg option"
  defaults :: "expr list"

text \<open>
  Nodes that are, or may contain, statements. \<open>FunctionDef name args body decorator_list\<close>
  and \<open>AsyncFunctionDef\<close> are the two classes of function definitions, \<open>Expr\<close> is an
  expression statement, and \<open>Other cs\<close> is any other node (the module, a class, a
  conditional, a loop, an exception handler, ...) with \<open>cs\<close> its children that are or
  contain statements, in field order. Expressions contain no statements, so they are left
  out of the children.
\<close>

datatype node =
    FunctionDef string arguments "node list" "expr list"
  | AsyncFunctionDef string arguments "node list" "expr list"
  | Expr expr
  | Other "node list"

datatype error = SyntaxError | OSError | AttributeError

section \<open>Records built by the Extractor\<close>

type_synonym dict = "(string \<times> string) list"

record param =
  name :: string
  param_in :: string
  required :: bool
  schema :: dict

record route =
  function_name :: string
  path :: string
  "method" :: "pyvalue list"
  params :: "param list"
  doc :: string
  responses :: "(string \<times> dict) list"
  tag :: string

section \<open>Library functions used by the code\<close>

text \<open>\<^verbatim>\<open>str.lower\<close> on ASCII text.\<close>

definition lower_char :: "char \<Rightarrow> char" where
  "lower_char c = (if CHR ''A'' \<le> c \<and> c \<le> CHR ''Z'' then char_of (of_char c + (32::nat)) else c)"

definition lower :: "string \<Rightarrow> string" where
  "lower s = map lower_char s"

text \<open>
  \<^verbatim>\<open>str.splitlines\<close> breaks a string at line boundaries; for a non-empty string its
  first element is the text before the first boundary character.
\<close>

definition line_boundaries :: "char list" where
  "line_boundaries = map char_of [10, 11, 12, 13, 28, 29, 30, 133 :: nat]"

definition first_line :: "string \<Rightarrow> string" where
  "first_line s = takeWhile (\<lambda>c. c \<notin> set line_boundaries) s"

text \<open>
  \<^verbatim>\<open>ast.get_docstring(node)\<close>: the text of a leading string statement, cleaned by
  \<^verbatim>\<open>inspect.cleandoc\<close>, which is a parameter here.
\<close>

fun get_docstring :: "(string \<Rightarrow> string) \<Rightarrow> node list \<Rightarrow> string option" where
  "get_docstring cleandoc (Expr (Constant (Str text)) # rest) = Some (cleandoc text)"
| "get_docstring cleandoc body = None"

text \<open>
  \<^verbatim>\<open>ast.iter_child_nodes\<close> and \<^verbatim>\<open>ast.walk\<close>: the walk takes the first node of its
  queue, appends that node's children to the queue and yields the node (breadth first).
\<close>

fun iter_child_nodes :: "node \<Rightarrow> node list" where
  "iter_child_nodes (FunctionDef nm a body ds) = body"
| "iter_child_nodes (AsyncFunctionDef nm a body ds) = body"
| "iter_child_nodes (Expr e) = []"
| "iter_child_nodes (Other cs) = cs"

fun count_nodes :: "node \<Rightarrow> nat" where
  "count_nodes (FunctionDef nm a body ds) = Suc (sum_list (map count_nodes body))"
| "count_nodes (AsyncFunctionDef nm a body ds) = Suc (sum_list (map count_nodes body))"
| "count_nodes (Expr e) = 1"
| "count_nodes (Other cs) = Suc (sum_list (map count_nodes cs))"

function walk :: "node list \<Rightarrow> node list" where
  "walk [] = []"
| "walk (n # todo) = n # walk (todo @ iter_child_nodes n)"
  by pat_completeness auto
termination
proof (relation "measure (\<lambda>todo. sum_list (map count_nodes todo))")
  show "wf (measure (\<lambda>todo. sum_list (map count_nodes todo)))"
    by simp
next
  fix n :: node and todo :: "node list"
  have "sum_list (map count_nodes (iter_child_nodes n)) < count_nodes n"
    by (cases n) simp_all
  then show "(todo @ iter_child_nodes n, n # todo) \<in> measure (\<lambda>todo. sum_list (map count_nodes todo))"
    by simp
qed

section \<open>extract_routes_from_file\<close>

text \<open>
  Lines 19 to 22: the decorator is a call of an attribute named \<^verbatim>\<open>whitelist\<close>. The
  result is the call's keyword list.
\<close>

fun whitelist_keywords :: "expr \<Rightarrow> keyword list option" where
  "whitelist_keywords (Call (Attribute v attr) as kws) =
     (if attr = ''whitelist'' then Some kws else None)"
| "whitelist_keywords e = None"

text \<open>Lines 26 to 29: the value of the first keyword named \<^verbatim>\<open>methods\<close>.\<close>

fun methods_arg :: "keyword list \<Rightarrow> expr option" where
  "methods_arg [] = None"
| "methods_arg (kw # kws) =
     (if fst kw = Some ''methods'' then Some (snd kw) else methods_arg kws)"

text \<open>
  \<^verbatim>\<open>method.s\<close>: on a constant node the attribute \<^verbatim>\<open>s\<close> is the node's value
  (Python 3.8 to 3.13); no other expression class has it, and reading it raises
  \<^verbatim>\<open>AttributeError\<close>.
\<close>

fun attr_s :: "expr \<Rightarrow> error + pyvalue" where
  "attr_s (Constant v) = Inr v"
| "attr_s e = Inl AttributeError"

text \<open>A list comprehension whose element expression may raise: the first failure wins.\<close>

fun comprehension :: "('a \<Rightarrow> error + 'b) \<Rightarrow> 'a list \<Rightarrow> error + 'b list" where
  "comprehension f [] = Inr []"
| "comprehension f (x # xs) =
     (case f x of
        Inl e \<Rightarrow> Inl e
      | Inr y \<Rightarrow> (case comprehension f xs of Inl e \<Rightarrow> Inl e | Inr ys \<Rightarrow> Inr (y # ys)))"

text \<open>Lines 31 to 36.\<close>

fun methods :: "expr option \<Rightarrow> error + pyvalue list" where
  "methods (Some (ListLit elts)) = comprehension attr_s elts"
| "methods (Some (Constant v)) = Inr [v]"
| "methods other = Inr [Str ''POST'']"

text \<open>
  Lines 38 to 58. \<^verbatim>\<open>[None] * k\<close> is empty for a negative \<open>k\<close>, as the truncating
  subtraction gives, and \<^verbatim>\<open>zip\<close> stops at the shorter list.
\<close>

definition padded_defaults :: "arguments \<Rightarrow> expr option list" where
  "padded_defaults a =
     map Some (defaults a) @ replicate (length (args a) - length (defaults a)) None"

definition make_param :: "pyvalue list \<Rightarrow> arg \<times> expr option \<Rightarrow> param" where
  "make_param ms p =
     (let param_name = arg (fst p);
          is_optional = (snd p \<noteq> None);
          location = (if Str ''POST'' \<in> set ms \<or> Str ''PUT'' \<in> set ms
                      then ''body'' else ''query'')
      in \<lparr>name = param_name, param_in = location, required = (\<not> is_optional),
          schema = [(''type'', ''string'')]\<rparr>)"

definition make_params :: "pyvalue list \<Rightarrow> arguments \<Rightarrow> param list" where
  "make_params ms a = map (make_param ms) (zip (args a) (padded_defaults a))"

text \<open>Lines 60 and 61.\<close>

definition doc_summary :: "(string \<Rightarrow> string) \<Rightarrow> node list \<Rightarrow> string" where
  "doc_summary cleandoc body =
     (let docstring = (case get_docstring cleandoc body of None \<Rightarrow> [] | Some d \<Rightarrow> d)
      in if docstring \<noteq> [] then first_line docstring else [])"

text \<open>Lines 23 to 71: the record of one function under one matching decorator.\<close>

definition make_route ::
  "(string \<Rightarrow> string) \<Rightarrow> string \<Rightarrow> string \<Rightarrow> string \<Rightarrow> arguments \<Rightarrow> node list \<Rightarrow> keyword list
     \<Rightarrow> error + route" where
  "make_route cleandoc file_name app_name nm a body kws =
     (case methods (methods_arg kws) of
        Inl e \<Rightarrow> Inl e
      | Inr ms \<Rightarrow>
          Inr \<lparr>function_name = nm,
               path = ''/api/methods/'' @ lower app_name @ ''.api.'' @ file_name @ ''.'' @ nm,
               method = ms,
               params = make_params ms a,
               doc = doc_summary cleandoc body,
               responses = [],
               tag = file_name\<rparr>)"

text \<open>Lines 17 to 72: the loop over the decorators of one function definition.\<close>

fun decorator_loop ::
  "(string \<Rightarrow> string) \<Rightarrow> string \<Rightarrow> string \<Rightarrow> string \<Rightarrow> arguments \<Rightarrow> node list \<Rightarrow> expr list
     \<Rightarrow> error + route list" where
  "decorator_loop cleandoc file_name app_name nm a body [] = Inr []"
| "decorator_loop cleandoc file_name app_name nm a body (d # ds) =
     (case whitelist_keywords d of
        None \<Rightarrow> decorator_loop cleandoc file_name app_name nm a body ds
      | Some kws \<Rightarrow>
          (case make_route cleandoc file_name app_name nm a body kws of
             Inl e \<Rightarrow> Inl e
           | Inr r \<Rightarrow>
               (case decorator_loop cleandoc file_name app_name nm a body ds of
                  Inl e \<Rightarrow> Inl e
                | Inr rs \<Rightarrow> Inr (r # rs))))"

text \<open>Lines 16 to 72: what one node of the walk appends to \<^verbatim>\<open>routes\<close>.\<close>

fun node_routes ::
  "(string \<Rightarrow> string) \<Rightarrow> string \<Rightarrow> string \<Rightarrow> node \<Rightarrow> error + route list" where
  "node_routes cleandoc file_name app_name (FunctionDef nm a body ds) =
     decorator_loop cleandoc file_name app_name nm a body ds"
| "node_routes cleandoc file_name app_name n = Inr []"

text \<open>Lines 13 to 74: the loop over the walk.\<close>

fun walk_loop ::
  "(string \<Rightarrow> string) \<Rightarrow> string \<Rightarrow> string \<Rightarrow> node list \<Rightarrow> error + route list" where
  "walk_loop cleandoc file_name app_name [] = Inr []"
| "walk_loop cleandoc file_name app_name (n # ns) =
     (case node_routes cleandoc file_name app_name n of
        Inl e \<Rightarrow> Inl e
      | Inr rs \<Rightarrow>
          (case walk_loop cleandoc file_name app_name ns of
             Inl e \<Rightarrow> Inl e
           | Inr rest \<Rightarrow> Inr (rs @ rest)))"

text \<open>
  Lines 9 to 74. \<open>parse_file\<close> stands for lines 10 and 11: it opens the file at a path
  and parses its text, and either of the two may raise.
\<close>

definition extract_routes_from_file ::
  "(string \<Rightarrow> error + node) \<Rightarrow> (string \<Rightarrow> string) \<Rightarrow> string \<Rightarrow> string \<Rightarrow> string
     \<Rightarrow> error + route list" where
  "extract_routes_from_file parse_file cleandoc file_path file_name app_name =
     (case parse_file file_path of
        Inl e \<Rightarrow> Inl e
      | Inr tree \<Rightarrow> walk_loop cleandoc file_name app_name (walk [tree]))"

section \<open>extract_routes_from_module\<close>

text \<open>\<^verbatim>\<open>str.endswith\<close>.\<close>

definition endswith :: "string \<Rightarrow> string \<Rightarrow> bool" where
  "endswith s suffix =
     (length suffix \<le> length s \<and> drop (length s - length suffix) s = suffix)"

text \<open>\<^verbatim>\<open>os.path.join\<close> of two components (POSIX).\<close>

definition path_join :: "string \<Rightarrow> string \<Rightarrow> string" where
  "path_join a p =
     (if p \<noteq> [] \<and> hd p = CHR ''/'' then p
      else if a = [] \<or> last a = CHR ''/'' then a @ p
      else a @ ''/'' @ p)"

text \<open>
  \<^verbatim>\<open>os.path.splitext(p)[0]\<close> (POSIX): the text before the last dot, unless that dot
  lies before the last separator or only dots precede it in the base name.
\<close>

definition rfind :: "char \<Rightarrow> string \<Rightarrow> int" where
  "rfind c s = int (length (dropWhile (\<lambda>x. x \<noteq> c) (rev s))) - 1"

definition splitext_root :: "string \<Rightarrow> string" where
  "splitext_root p =
     (let sepIndex = rfind (CHR ''/'') p;
          dotIndex = rfind (CHR ''.'') p
      in if dotIndex > sepIndex \<and>
            list_ex (\<lambda>c. c \<noteq> CHR ''.'')
              (take (nat (dotIndex - (sepIndex + 1))) (drop (nat (sepIndex + 1)) p))
         then take (nat dotIndex) p
         else p)"

text \<open>
  Lines 139 to 144: the loop over the files of one directory. \<open>os_walk\<close> below stands
  for \<^verbatim>\<open>os.walk\<close>: the triples of directory, subdirectory names and file names it yields
  for a root.
\<close>

fun files_loop ::
  "(string \<Rightarrow> error + node) \<Rightarrow> (string \<Rightarrow> string) \<Rightarrow> string \<Rightarrow> string \<Rightarrow> string list
     \<Rightarrow> error + route list" where
  "files_loop parse_file cleandoc app_name root [] = Inr []"
| "files_loop parse_file cleandoc app_name root (file # files) =
     (if endswith file ''.py'' then
        (let file_path = path_join root file;
             file_name = splitext_root file
         in case extract_routes_from_file parse_file cleandoc file_path file_name app_name of
              Inl e \<Rightarrow> Inl e
            | Inr routes \<Rightarrow>
                (case files_loop parse_file cleandoc app_name root files of
                   Inl e \<Rightarrow> Inl e
                 | Inr rest \<Rightarrow> Inr (routes @ rest)))
      else files_loop parse_file cleandoc app_name root files)"

fun dirs_loop ::
  "(string \<Rightarrow> error + node) \<Rightarrow> (string \<Rightarrow> string) \<Rightarrow> string
     \<Rightarrow> (string \<times> string list \<times> string list) list \<Rightarrow> error + route list" where
  "dirs_loop parse_file cleandoc app_name [] = Inr []"
| "dirs_loop parse_file cleandoc app_name ((root, dirs, files) # triples) =
     (case files_loop parse_file cleandoc app_name root files of
        Inl e \<Rightarrow> Inl e
      | Inr routes \<Rightarrow>
          (case dirs_loop parse_file cleandoc app_name triples of
             Inl e \<Rightarrow> Inl e
           | Inr rest \<Rightarrow> Inr (routes @ rest)))"

definition extract_routes_from_module ::
  "(string \<Rightarrow> (string \<times> string list \<times> string list) list) \<Rightarrow> (string \<Rightarrow> error + node)
     \<Rightarrow> (string \<Rightarrow> string) \<Rightarrow> string \<Rightarrow> string \<Rightarrow> error + route list" where
  "extract_routes_from_module os_walk parse_file cleandoc module_path app_name =
     dirs_loop parse_file cleandoc app_name (os_walk module_path)"

section \<open>generate_openapi_spec\<close>

text \<open>
  The schema object under \<^verbatim>\<open>content["application/json"]["schema"]\<close>, the request body
  around it, and the operation object of lines 104 to 129.
\<close>

record object_schema =
  rb_type :: string
  rb_properties :: "string \<rightharpoonup> dict"
  rb_required :: "string list"

record request_body =
  content :: "(string \<times> object_schema) list"

record operation =
  summary :: string
  description :: string
  parameters :: "param list"
  requestBody :: "request_body option"
  op_responses :: "(string \<times> dict) list"
  op_tags :: "string list"

record openapi_schema =
  openapi :: string
  info :: dict
  paths :: "string \<rightharpoonup> (pyvalue \<rightharpoonup> operation)"
  tags :: "dict list"

text \<open>\<^verbatim>\<open>method.lower()\<close>: text and bytes have the method, no other value has.\<close>

fun lower_method :: "pyvalue \<Rightarrow> error + pyvalue" where
  "lower_method (Str s) = Inr (Str (lower s))"
| "lower_method (Bytes s) = Inr (Bytes (lower s))"
| "lower_method v = Inl AttributeError"

text \<open>Lines 113 to 115: a dict comprehension, a later parameter of the same name wins.\<close>

fun properties :: "param list \<Rightarrow> (string \<rightharpoonup> dict) \<Rightarrow> (string \<rightharpoonup> dict)" where
  "properties [] d = d"
| "properties (p # ps) d = properties ps (d(name p \<mapsto> schema p))"

text \<open>Lines 104 to 129: the operation object of a route under one of its methods.\<close>

definition operation_of :: "route \<Rightarrow> pyvalue \<Rightarrow> operation" where
  "operation_of r m =
     \<lparr>summary = doc r,
      description = doc r,
      parameters = (if m \<noteq> Str ''POST'' \<and> m \<noteq> Str ''PUT'' then params r else []),
      requestBody =
        (if m = Str ''POST'' \<or> m = Str ''PUT'' then
           Some \<lparr>content =
             [(''application/json'',
               \<lparr>rb_type = ''object'',
                rb_properties = properties (params r) Map.empty,
                rb_required = map name (filter required (params r))\<rparr>)]\<rparr>
         else None),
      op_responses =
        (if responses r \<noteq> [] then responses r
         else [(''200'', [(''description'', ''Successful Response'')])]),
      op_tags = [tag r]\<rparr>"

text \<open>Lines 100 to 129: the loop over the methods of one route, on the paths dict.\<close>

fun methods_loop ::
  "route \<Rightarrow> pyvalue list \<Rightarrow> (string \<rightharpoonup> (pyvalue \<rightharpoonup> operation))
     \<Rightarrow> error + (string \<rightharpoonup> (pyvalue \<rightharpoonup> operation))" where
  "methods_loop r [] ps = Inr ps"
| "methods_loop r (m # ms) ps =
     (let ps1 = (if ps (path r) = None then ps(path r \<mapsto> Map.empty) else ps)
      in case lower_method m of
           Inl e \<Rightarrow> Inl e
         | Inr key \<Rightarrow>
             methods_loop r ms
               (ps1(path r \<mapsto> (case ps1 (path r) of
                                   None \<Rightarrow> Map.empty
                                 | Some ops \<Rightarrow> ops)(key \<mapsto> operation_of r m))))"

text \<open>Lines 87 to 129: the loop over the routes, on the paths dict and the tag set.\<close>

fun routes_loop ::
  "route list \<Rightarrow> (string \<rightharpoonup> (pyvalue \<rightharpoonup> operation)) \<times> string set
     \<Rightarrow> error + (string \<rightharpoonup> (pyvalue \<rightharpoonup> operation)) \<times> string set" where
  "routes_loop [] st = Inr st"
| "routes_loop (r # rs) (ps, ts) =
     (case methods_loop r (method r) ps of
        Inl e \<Rightarrow> Inl e
      | Inr ps' \<Rightarrow> routes_loop rs (ps', insert (tag r) ts))"

text \<open>
  Lines 77 to 133. A Python set is iterated in an order the language does not fix:
  \<open>set_iter\<close> is that order, a parameter.
\<close>

definition generate_openapi_spec ::
  "(string set \<Rightarrow> string list) \<Rightarrow> route list \<Rightarrow> string \<Rightarrow> error + openapi_schema" where
  "generate_openapi_spec set_iter routes app_name =
     (case routes_loop routes (Map.empty, {}) of
        Inl e \<Rightarrow> Inl e
      | Inr (ps, ts) \<Rightarrow>
          Inr \<lparr>openapi = ''3.0.0'',
               info = [(''title'', app_name @ '' API''), (''version'', ''1.0.0'')],
               paths = ps,
               tags = map (\<lambda>t. [(''name'', t)]) (set_iter ts)\<rparr>)"

section \<open>custom_openapi\<close>

definition custom_openapi ::
  "(string \<Rightarrow> (string \<times> string list \<times> string list) list) \<Rightarrow> (string \<Rightarrow> error + node)
     \<Rightarrow> (string \<Rightarrow> string) \<Rightarrow> (string set \<Rightarrow> string list) \<Rightarrow> string \<Rightarrow> string
     \<Rightarrow> error + openapi_schema" where
  "custom_openapi os_walk parse_file cleandoc set_iter module_path app_name =
     (case extract_routes_from_module os_walk parse_file cleandoc module_path app_name of
        Inl e \<Rightarrow> Inl e
      | Inr routes \<Rightarrow> generate_openapi_spec set_iter routes app_name)"

section \<open>Auxiliary definitions\<close>

text \<open>
  The four extending loops of the Extractor have one shape: run a step on every element,
  append what it returns, stop at the first step that raises.
\<close>

fun for_extend :: "('a \<Rightarrow> error + 'b list) \<Rightarrow> 'a list \<Rightarrow> error + 'b list" where
  "for_extend f [] = Inr []"
| "for_extend f (x # xs) =
     (case f x of
        Inl e \<Rightarrow> Inl e
      | Inr ys \<Rightarrow> (case for_extend f xs of Inl e \<Rightarrow> Inl e | Inr rest \<Rightarrow> Inr (ys @ rest)))"

text \<open>The step of each loop, and the files a scan visits, in order.\<close>

definition decorator_step ::
  "(string \<Rightarrow> string) \<Rightarrow> string \<Rightarrow> string \<Rightarrow> string \<Rightarrow> arguments \<Rightarrow> node list \<Rightarrow> expr
     \<Rightarrow> error + route list" where
  "decorator_step cleandoc file_name app_name nm a body d =
     (case whitelist_keywords d of
        None \<Rightarrow> Inr []
      | Some kws \<Rightarrow>
          (case make_route cleandoc file_name app_name nm a body kws of
             Inl e \<Rightarrow> Inl e
           | Inr r \<Rightarrow> Inr [r]))"

definition file_step ::
  "(string \<Rightarrow> error + node) \<Rightarrow> (string \<Rightarrow> string) \<Rightarrow> string \<Rightarrow> string \<times> string
     \<Rightarrow> error + route list" where
  "file_step parse_file cleandoc app_name f =
     extract_routes_from_file parse_file cleandoc (fst f) (snd f) app_name"

definition scanned_files :: "(string \<times> string list \<times> string list) list \<Rightarrow> (string \<times> string) list" where
  "scanned_files triples =
     concat (map (\<lambda>(root, dirs, files).
        map (\<lambda>file. (path_join root file, splitext_root file))
          (filter (\<lambda>file. endswith file ''.py'') files)) triples)"

text \<open>Sample inputs: source files as \<^verbatim>\<open>ast.parse\<close> returns them.\<close>

definition plain_arguments :: "string list \<Rightarrow> expr list \<Rightarrow> arguments" where
  "plain_arguments names ds =
     \<lparr>posonlyargs = [], args = map (\<lambda>n. \<lparr>arg = n\<rparr>) names, vararg = None,
      kwonlyargs = [], kw_defaults = [], kwarg = None, defaults = ds\<rparr>"

definition whitelist_call :: "keyword list \<Rightarrow> expr" where
  "whitelist_call kws = Call (Attribute (Name ''frappe'') ''whitelist'') [] kws"

text \<open>
  \<^verbatim>\<open>orders.py\<close>:
  \<^verbatim>\<open>
  import frappe
  @frappe.whitelist(methods=["POST"])
  def create_order(customer_id, note=None):
      pass
  \<close>
\<close>

definition create_order :: node where
  "create_order =
     FunctionDef ''create_order''
       (plain_arguments [''customer_id'', ''note''] [Constant NoneC])
       [Other []]
       [whitelist_call [(Some ''methods'', ListLit [Constant (Str ''POST'')])]]"

definition orders_py :: node where
  "orders_py = Other [Other [], create_order]"

definition shop_walk :: "string \<Rightarrow> (string \<times> string list \<times> string list) list" where
  "shop_walk module_path =
     (if module_path = ''shop'' then [(''shop'', [], [''README.md'', ''orders.py''])] else [])"

definition shop_parse :: "string \<Rightarrow> error + node" where
  "shop_parse file_path = (if file_path = ''shop/orders.py'' then Inr orders_py else Inl OSError)"

text \<open>The required list at \<^verbatim>\<open>paths[p][key].requestBody.content["application/json"].schema\<close>.\<close>

definition request_schema :: "openapi_schema \<Rightarrow> string \<Rightarrow> pyvalue \<Rightarrow> object_schema option" where
  "request_schema d p key =
     (case paths d p of
        None \<Rightarrow> None
      | Some ops \<Rightarrow>
          (case ops key of
             None \<Rightarrow> None
           | Some op \<Rightarrow>
               (case requestBody op of
                  None \<Rightarrow> None
                | Some rb \<Rightarrow> map_of (content rb) ''application/json'')))"

definition ping_names :: node where
  "ping_names =
     FunctionDef ''ping'' (plain_arguments [] []) [Other []]
       [whitelist_call [(Some ''methods'', ListLit [Name ''GET''])]]"

definition names_py :: node where
  "names_py = Other [Other [], ping_names]"

definition twice :: node where
  "twice =
     FunctionDef ''twice'' (plain_arguments [] []) [Other []]
       [whitelist_call [], whitelist_call [(Some ''methods'', Constant (Str ''GET''))]]"

definition names_walk :: "string \<Rightarrow> (string \<times> string list \<times> string list) list" where
  "names_walk module_path = [(module_path, [], [''names.py''])]"

definition names_parse :: "string \<Rightarrow> error + node" where
  "names_parse file_path = Inr names_py"

fun marker_calls :: "node \<Rightarrow> nat" where
  "marker_calls (FunctionDef nm a body ds) = length (filter (\<lambda>d. whitelist_keywords d \<noteq> None) ds)"
| "marker_calls n = 0"

definition twice_parse :: "string \<Rightarrow> error + node" where
  "twice_parse file_path = Inr (Other [twice])"

definition mixed_walk :: "string \<Rightarrow> (string \<times> string list \<times> string list) list" where
  "mixed_walk module_path =
     [(module_path, [''api''], [''orders.py'']), (path_join module_path ''api'', [], [''broken.py''])]"

definition mixed_parse :: "string \<Rightarrow> error + node" where
  "mixed_parse file_path = (if file_path = ''shop/orders.py'' then Inr orders_py else Inl SyntaxError)"

definition from_routes :: "route list \<Rightarrow> (string \<rightharpoonup> (pyvalue \<rightharpoonup> operation)) \<Rightarrow> bool" where
  "from_routes rs ps =
     (\<forall>p ops k op. ps p = Some ops \<and> ops k = Some op \<longrightarrow>
        (\<exists>r\<in>set rs. \<exists>m\<in>set (method r). p = path r \<and> lower_method m = Inr k \<and> op = operation_of r m))"

fun is_FunctionDef :: "node \<Rightarrow> bool" where
  "is_FunctionDef (FunctionDef nm a body ds) = True"
| "is_FunctionDef n = False"

text \<open>
  \<^verbatim>\<open>users.py\<close>:
  \<^verbatim>\<open>
  import frappe
  @frappe.whitelist(methods=["GET"])
  def list_users(limit, offset=0):
      "Return all users."
      return []
  \<close>
\<close>

definition list_users :: node where
  "list_users =
     FunctionDef ''list_users''
       (plain_arguments [''limit'', ''offset''] [Constant (IntC 0)])
       [Expr (Constant (Str ''Return all users.'')), Other []]
       [whitelist_call [(Some ''methods'', ListLit [Constant (Str ''GET'')])]]"

definition users_parse :: "string \<Rightarrow> error + node" where
  "users_parse file_path = Inr (Other [Other [], list_users])"

text \<open>
  \<^verbatim>\<open>jobs.py\<close>:
  \<^verbatim>\<open>
  import frappe
  @frappe.whitelist()
  async def poll(job):
      pass
  \<close>
\<close>

definition poll :: node where
  "poll =
     AsyncFunctionDef ''poll'' (plain_arguments [''job''] []) [Other []] [whitelist_call []]"

definition jobs_parse :: "string \<Rightarrow> error + node" where
  "jobs_parse file_path = Inr (Other [Other [], poll])"

text \<open>
  \<^verbatim>\<open>files.py\<close>:
  \<^verbatim>\<open>
  import frappe
  @frappe.whitelist()
  def upload(owner, /, name, *parts, private, **extra):
      pass
  \<close>
\<close>

definition upload :: node where
  "upload =
     FunctionDef ''upload''
       \<lparr>posonlyargs = [\<lparr>arg = ''owner''\<rparr>], args = [\<lparr>arg = ''name''\<rparr>],
        vararg = Some \<lparr>arg = ''parts''\<rparr>, kwonlyargs = [\<lparr>arg = ''private''\<rparr>],
        kw_defaults = [None], kwarg = Some \<lparr>arg = ''extra''\<rparr>, defaults = []\<rparr>
       [Other []]
       [whitelist_call []]"

definition files_parse :: "string \<Rightarrow> error + node" where
  "files_parse file_path = Inr (Other [Other [], upload])"

text \<open>Two route records of different files that share the tag \<^verbatim>\<open>orders\<close>.\<close>

definition sample_route :: route where
  "sample_route =
     \<lparr>function_name = ''create_order'',
      path = ''/api/methods/shop.api.orders.create_order'',
      method = [Str ''POST''],
      params =
        [\<lparr>name = ''customer_id'', param_in = ''body'', required = True,
          schema = [(''type'', ''string'')]\<rparr>,
         \<lparr>name = ''note'', param_in = ''body'', required = False,
          schema = [(''type'', ''string'')]\<rparr>],
      doc = ''Create an order.'', responses = [], tag = ''orders''\<rparr>"

definition cancel_route :: route where
  "cancel_route =
     \<lparr>function_name = ''cancel_order'',
      path = ''/api/methods/shop.api.orders.cancel_order'',
      method = [Str ''GET'', Str ''PUT''],
      params =
        [\<lparr>name = ''order_id'', param_in = ''body'', required = True,
          schema = [(''type'', ''string'')]\<rparr>],
      doc = [], responses = [], tag = ''orders''\<rparr>"

text \<open>
  \<^verbatim>\<open>helpers.py\<close>, with no marker call:
  \<^verbatim>\<open>
  import frappe
  @frappe.whitelist
  def bare():
      pass
  \<close>
\<close>

definition bare :: node where
  "bare =
     FunctionDef ''bare'' (plain_arguments [] []) [Other []]
       [Attribute (Name ''frappe'') ''whitelist'']"

definition helpers_parse :: "string \<Rightarrow> error + node" where
  "helpers_parse file_path = Inr (Other [Other [], bare])"

text \<open>
  The operation a document holds at \<^verbatim>\<open>paths[p][key]\<close>, the pairs of a route and one of
  its methods in the order the Synthesizer visits them, and the operation of the last
  pair that writes \<^verbatim>\<open>paths[p][key]\<close>.
\<close>

definition lookup_operation ::
  "(string \<rightharpoonup> (pyvalue \<rightharpoonup> operation)) \<Rightarrow> string \<Rightarrow> pyvalue \<Rightarrow> operation option" where
  "lookup_operation ps p key = (case ps p of None \<Rightarrow> None | Some ops \<Rightarrow> ops key)"

definition route_methods :: "route list \<Rightarrow> (route \<times> pyvalue) list" where
  "route_methods routes = concat (map (\<lambda>r. map (Pair r) (method r)) routes)"

fun last_writer :: "(route \<times> pyvalue) list \<Rightarrow> string \<Rightarrow> pyvalue \<Rightarrow> operation option" where
  "last_writer [] p key = None"
| "last_writer (rm # rest) p key =
     (case last_writer rest p key of
        Some op \<Rightarrow> Some op
      | None \<Rightarrow>
          (if path (fst rm) = p \<and> lower_method (snd rm) = Inr key
           then Some (operation_of (fst rm) (snd rm)) else None))"

text \<open>The record the Extractor builds for \<^verbatim>\<open>upload\<close> of \<^verbatim>\<open>files.py\<close>.\<close>

definition upload_route :: route where
  "upload_route =
     \<lparr>function_name = ''upload'',
      path = ''/api/methods/shop.api.files.upload'',
      method = [Str ''POST''],
      params =
        [\<lparr>name = ''name'', param_in = ''body'', required = True,
          schema = [(''type'', ''string'')]\<rparr>],
      doc = [], responses = [], tag = ''files''\<rparr>"

section \<open>Properties of the loops\<close>

lemma for_extend_append:
  "for_extend f (xs @ ys) =
     (case for_extend f xs of
        Inl e \<Rightarrow> Inl e
      | Inr a \<Rightarrow> (case for_extend f ys of Inl e \<Rightarrow> Inl e | Inr b \<Rightarrow> Inr (a @ b)))"
  by (induction xs) (auto split: sum.splits)

lemma for_extend_Inr_all:
  "for_extend f xs = Inr ys \<Longrightarrow> x \<in> set xs \<Longrightarrow> \<exists>zs. f x = Inr zs"
  by (induction xs arbitrary: ys) (auto split: sum.splits)

lemma for_extend_Inr_concat:
  "for_extend f xs = Inr ys \<Longrightarrow> ys = concat (map (\<lambda>x. projr (f x)) xs)"
  by (induction xs arbitrary: ys) (auto split: sum.splits)

lemma for_extend_all_Inr:
  "(\<And>x. x \<in> set xs \<Longrightarrow> \<exists>zs. f x = Inr zs) \<Longrightarrow>
     for_extend f xs = Inr (concat (map (\<lambda>x. projr (f x)) xs))"
proof (induction xs)
  case Nil
  then show ?case by simp
next
  case (Cons x xs)
  from Cons.prems obtain zs where zs: "f x = Inr zs" by auto
  have "for_extend f xs = Inr (concat (map (\<lambda>x. projr (f x)) xs))"
    by (rule Cons.IH) (simp add: Cons.prems)
  with zs show ?case by simp
qed

lemma for_extend_first_error:
  "(\<And>y. y \<in> set pre \<Longrightarrow> \<exists>zs. f y = Inr zs) \<Longrightarrow> f x = Inl e \<Longrightarrow>
     for_extend f (pre @ x # post) = Inl e"
proof -
  assume ok: "\<And>y. y \<in> set pre \<Longrightarrow> \<exists>zs. f y = Inr zs" and bad: "f x = Inl e"
  have "for_extend f pre = Inr (concat (map (\<lambda>x. projr (f x)) pre))"
    by (rule for_extend_all_Inr) (rule ok)
  with bad show ?thesis by (simp add: for_extend_append)
qed

lemma for_extend_mem:
  "for_extend f xs = Inr ys \<Longrightarrow> y \<in> set ys \<Longrightarrow> \<exists>x\<in>set xs. \<exists>zs. f x = Inr zs \<and> y \<in> set zs"
  by (induction xs arbitrary: ys) (auto split: sum.splits)

lemma for_extend_Inl_mem:
  "x \<in> set xs \<Longrightarrow> f x = Inl e \<Longrightarrow> \<exists>e'. for_extend f xs = Inl e'"
  by (induction xs) (auto split: sum.splits)

lemma decorator_loop_for_extend:
  "decorator_loop c fn app nm a body ds = for_extend (decorator_step c fn app nm a body) ds"
  by (induction ds) (auto simp: decorator_step_def split: option.splits sum.splits)

lemma walk_loop_for_extend:
  "walk_loop c fn app ns = for_extend (node_routes c fn app) ns"
  by (induction ns) (auto split: sum.splits)

lemma files_loop_for_extend:
  "files_loop P c app root files =
     for_extend (file_step P c app)
       (map (\<lambda>file. (path_join root file, splitext_root file))
          (filter (\<lambda>file. endswith file ''.py'') files))"
  by (induction files) (auto simp: file_step_def Let_def split: sum.splits)

lemma dirs_loop_for_extend:
  "dirs_loop P c app triples = for_extend (file_step P c app) (scanned_files triples)"
  by (induction triples)
     (auto simp: scanned_files_def files_loop_for_extend for_extend_append split: sum.splits)

lemma decorator_loop_length:
  "decorator_loop c fn app nm a body ds = Inr rs \<Longrightarrow>
     length rs = length (filter (\<lambda>d. whitelist_keywords d \<noteq> None) ds)"
  by (induction ds arbitrary: rs) (auto split: option.splits sum.splits)

lemma extract_routes_mem:
  assumes "extract_routes_from_file P c fp fn app = Inr routes" and "r \<in> set routes"
  shows "\<exists>tree nm a body ds d kws.
           P fp = Inr tree \<and> FunctionDef nm a body ds \<in> set (walk [tree]) \<and> d \<in> set ds \<and>
           whitelist_keywords d = Some kws \<and> make_route c fn app nm a body kws = Inr r"
proof -
  from assms(1) obtain tree where tree: "P fp = Inr tree"
    and loop: "for_extend (node_routes c fn app) (walk [tree]) = Inr routes"
    by (auto simp: extract_routes_from_file_def walk_loop_for_extend split: sum.splits)
  from for_extend_mem [OF loop assms(2)] obtain n rs where
    n: "n \<in> set (walk [tree])" and rs: "node_routes c fn app n = Inr rs" and r: "r \<in> set rs"
    by blast
  from rs r obtain nm a body ds where
    fd: "n = FunctionDef nm a body ds"
    and dl: "for_extend (decorator_step c fn app nm a body) ds = Inr rs"
    by (cases n) (auto simp: decorator_loop_for_extend)
  from for_extend_mem [OF dl r] obtain d zs where
    d: "d \<in> set ds" and step: "decorator_step c fn app nm a body d = Inr zs" and rz: "r \<in> set zs"
    by blast
  from step rz obtain kws where
    "whitelist_keywords d = Some kws" and "make_route c fn app nm a body kws = Inr r"
    by (auto simp: decorator_step_def split: option.splits sum.splits)
  with tree n fd d show ?thesis by blast
qed


section \<open>Evaluation on sample inputs\<close>

lemmas eval_defs =
  extract_routes_from_module_def endswith_def path_join_def splitext_root_def rfind_def
  extract_routes_from_file_def whitelist_call_def plain_arguments_def make_route_def
  make_params_def make_param_def padded_defaults_def doc_summary_def lower_def lower_char_def
  char_of_def bit_Suc_0_iff first_line_def line_boundaries_def

lemma shop_routes:
  "extract_routes_from_module shop_walk shop_parse id ''shop'' ''shop'' =
     Inr [\<lparr>function_name = ''create_order'',
           path = ''/api/methods/shop.api.orders.create_order'',
           method = [Str ''POST''],
           params =
             [\<lparr>name = ''customer_id'', param_in = ''body'', required = False,
               schema = [(''type'', ''string'')]\<rparr>,
              \<lparr>name = ''note'', param_in = ''body'', required = True,
               schema = [(''type'', ''string'')]\<rparr>],
           doc = [], responses = [], tag = ''orders''\<rparr>]"
  by (simp add: eval_defs shop_walk_def shop_parse_def orders_py_def create_order_def)

lemma shop_orders_routes:
  "extract_routes_from_file shop_parse id ''shop/orders.py'' ''orders'' ''shop'' =
     Inr [\<lparr>function_name = ''create_order'',
           path = ''/api/methods/shop.api.orders.create_order'',
           method = [Str ''POST''],
           params =
             [\<lparr>name = ''customer_id'', param_in = ''body'', required = False,
               schema = [(''type'', ''string'')]\<rparr>,
              \<lparr>name = ''note'', param_in = ''body'', required = True,
               schema = [(''type'', ''string'')]\<rparr>],
           doc = [], responses = [], tag = ''orders''\<rparr>]"
  by (simp add: eval_defs shop_parse_def orders_py_def create_order_def)

section \<open>The claims\<close>

text \<open>
  C1. The claim: a parameter with a default value is marked \<^verbatim>\<open>required: false\<close>, one
  without a default \<^verbatim>\<open>required: true\<close>, so that for
  \<^verbatim>\<open>create_order(customer_id, note=None)\<close> under \<^verbatim>\<open>methods=["POST"]\<close> the required list
  of the request body schema is \<^verbatim>\<open>["customer_id"]\<close>. The code pads the defaults with
  \<^verbatim>\<open>None\<close> at the end, although the defaults of the syntax tree belong to the last
  parameters: it pairs \<^verbatim>\<open>customer_id\<close> with the default of \<^verbatim>\<open>note\<close>. On this input
  the generated document's required list is \<^verbatim>\<open>["note"]\<close>.
\<close>

theorem create_order_required_list:
  "(case custom_openapi shop_walk shop_parse id sorted_list_of_set ''shop'' ''shop'' of
      Inl e \<Rightarrow> None
    | Inr d \<Rightarrow>
        map_option rb_required
          (request_schema d ''/api/methods/shop.api.orders.create_order'' (Str ''post'')))
   = Some [''note'']"
  by (simp add: custom_openapi_def shop_routes generate_openapi_spec_def operation_of_def
      request_schema_def lower_def lower_char_def char_of_def bit_Suc_0_iff)

text \<open>
  C2, as stated, fails: the claim lets every malformed \<^verbatim>\<open>methods\<close> value fall back to
  \<^verbatim>\<open>["POST"]\<close> without an error, but a list display with an element that is not a
  constant (here \<^verbatim>\<open>methods=[GET]\<close>, a name) raises \<^verbatim>\<open>AttributeError\<close> when the code
  reads \<^verbatim>\<open>method.s\<close>.
\<close>

theorem malformed_methods_list_raises:
  "extract_routes_from_file names_parse id ''shop/names.py'' ''names'' ''shop'' = Inl AttributeError"
  by (simp add: eval_defs names_parse_def names_py_def ping_names_def)

lemma methods_arg_find:
  "methods_arg kws = map_option snd (find (\<lambda>kw. fst kw = Some ''methods'') kws)"
  by (induction kws) auto

lemma comprehension_attr_s: "comprehension attr_s (map Constant vs) = Inr vs"
  by (induction vs) auto

lemma methods_other:
  "(\<forall>elts. e \<noteq> ListLit elts) \<Longrightarrow> (\<forall>v. e \<noteq> Constant v) \<Longrightarrow> methods (Some e) = Inr [Str ''POST'']"
  by (cases e) auto

text \<open>
  C2, amended: the methods of a route are computed from the value of the first keyword
  named \<^verbatim>\<open>methods\<close>. A list display whose elements are all constants gives the elements'
  values; a single constant gives the one-element list of its value; an absent keyword, or
  a value that is neither a list display nor a constant, gives exactly \<^verbatim>\<open>["POST"]\<close>, and
  no error is raised in any of these cases.
\<close>

theorem methods_extraction:
  "map_sum id method (make_route c fn app nm a body kws) = methods (methods_arg kws) \<and>
   methods_arg kws = map_option snd (find (\<lambda>kw. fst kw = Some ''methods'') kws) \<and>
   methods (Some (ListLit (map Constant vs))) = Inr vs \<and>
   methods (Some (Constant v)) = Inr [v] \<and>
   methods None = Inr [Str ''POST''] \<and>
   ((\<forall>elts. e \<noteq> ListLit elts) \<and> (\<forall>w. e \<noteq> Constant w) \<longrightarrow> methods (Some e) = Inr [Str ''POST''])"
proof -
  have "map_sum id method (make_route c fn app nm a body kws) = methods (methods_arg kws)"
    by (simp add: make_route_def split: sum.splits)
  then show ?thesis
    by (simp add: methods_arg_find [symmetric] comprehension_attr_s methods_other)
qed

theorem methods_extraction_witness:
  "map_sum id method
     (make_route id ''users'' ''shop'' ''list_users'' (plain_arguments [] []) []
        [(Some ''cache'', Constant (BoolC True)), (Some ''methods'', Tuple [Constant (Str ''GET'')]),
         (Some ''methods'', Constant (Str ''PUT''))])
   = Inr [Str ''POST''] \<and>
   methods (Some (ListLit (map Constant [Str ''GET'', Str ''POST'']))) = Inr [Str ''GET'', Str ''POST''] \<and>
   methods (Some (Constant (Str ''GET''))) = Inr [Str ''GET'']"
proof -
  have shape: "(\<forall>elts. Tuple [Constant (Str ''GET'')] \<noteq> ListLit elts) \<and>
               (\<forall>w. Tuple [Constant (Str ''GET'')] \<noteq> Constant w)"
    by simp
  from shape show ?thesis
    using methods_extraction [of id "''users''" "''shop''" "''list_users''" "plain_arguments [] []" "[]"
        "[(Some ''cache'', Constant (BoolC True)), (Some ''methods'', Tuple [Constant (Str ''GET'')]),
          (Some ''methods'', Constant (Str ''PUT''))]"
        "[Str ''GET'', Str ''POST'']" "Str ''GET''" "Tuple [Constant (Str ''GET'')]"]
    by simp
qed

text \<open>
  C3, as stated, fails: a function that carries two marker-call decorators yields two
  records, not one.
\<close>

theorem two_marker_decorators_two_records:
  "marker_calls twice = 2 \<and>
   map_sum id length (extract_routes_from_file twice_parse id ''shop/a.py'' ''a'' ''shop'') = Inr 2"
  by (simp add: eval_defs twice_parse_def twice_def)

lemma for_extend_length:
  "for_extend f xs = Inr ys \<Longrightarrow> (\<And>x zs. x \<in> set xs \<Longrightarrow> f x = Inr zs \<Longrightarrow> length zs = g x) \<Longrightarrow>
     length ys = sum_list (map g xs)"
  by (induction xs arbitrary: ys) (auto split: sum.splits)

lemma node_routes_length:
  "node_routes c fn app n = Inr rs \<Longrightarrow> length rs = marker_calls n"
  by (cases n) (auto simp: decorator_loop_length)

text \<open>
  C3, amended: the Extractor creates exactly one record per marker-call decorator of each
  function definition it visits: a function with one such decorator yields one record,
  one with \<open>k\<close> of them yields \<open>k\<close> records, and every other node yields none.
\<close>

theorem one_record_per_marker_decorator:
  assumes "extract_routes_from_file P c fp fn app = Inr routes"
  shows "\<exists>tree. P fp = Inr tree \<and>
           length routes = sum_list (map marker_calls (walk [tree])) \<and>
           (\<forall>n\<in>set (walk [tree]). \<exists>rs. node_routes c fn app n = Inr rs \<and> length rs = marker_calls n)"
proof -
  from assms obtain tree where tree: "P fp = Inr tree"
    and loop: "for_extend (node_routes c fn app) (walk [tree]) = Inr routes"
    by (auto simp: extract_routes_from_file_def walk_loop_for_extend split: sum.splits)
  have len: "length routes = sum_list (map marker_calls (walk [tree]))"
    using loop by (rule for_extend_length) (rule node_routes_length)
  have each: "\<exists>rs. node_routes c fn app n = Inr rs \<and> length rs = marker_calls n"
    if "n \<in> set (walk [tree])" for n
    using for_extend_Inr_all [OF loop that] node_routes_length by blast
  from tree len each show ?thesis by blast
qed

theorem one_record_per_marker_decorator_witness:
  "length (projr (extract_routes_from_file twice_parse id ''shop/a.py'' ''a'' ''shop'')) =
     sum_list (map marker_calls (walk [Other [twice]])) \<and>
   sum_list (map marker_calls (walk [Other [twice]])) = 2"
proof -
  have ex: "extract_routes_from_file twice_parse id ''shop/a.py'' ''a'' ''shop'' =
      Inr (projr (extract_routes_from_file twice_parse id ''shop/a.py'' ''a'' ''shop''))"
    by (simp add: eval_defs twice_parse_def twice_def)
  have "sum_list (map marker_calls (walk [Other [twice]])) = 2"
    by (simp add: twice_def whitelist_call_def)
  with one_record_per_marker_decorator [OF ex] show ?thesis
    by (auto simp: twice_parse_def)
qed

text \<open>
  C4, as stated, fails: every scanned file may parse and the scan still raises, because
  the extraction of a parsed file can raise (the \<^verbatim>\<open>AttributeError\<close> of C2).
\<close>

theorem scan_raises_though_every_file_parses:
  "scanned_files (names_walk ''shop'') = [(''shop/names.py'', ''names'')] \<and>
   names_parse ''shop/names.py'' = Inr names_py \<and>
   extract_routes_from_module names_walk names_parse id ''shop'' ''shop'' = Inl AttributeError"
  by (simp add: scanned_files_def eval_defs names_walk_def names_parse_def names_py_def ping_names_def)

text \<open>
  C4, amended: if the extraction of every scanned file returns, the scan returns the
  concatenation of each file's routes, in scan order; if a scanned file fails to parse,
  the scan raises and returns no routes; and the error it raises is that of the first
  scanned file whose extraction raises. There are no partial results.
\<close>

theorem module_scan_all_or_nothing:
  "((\<forall>f\<in>set (scanned_files (os_walk mp)). \<exists>rs. extract_routes_from_file P c (fst f) (snd f) app = Inr rs)
      \<longrightarrow> extract_routes_from_module os_walk P c mp app =
            Inr (concat (map (\<lambda>f. projr (extract_routes_from_file P c (fst f) (snd f) app))
                           (scanned_files (os_walk mp))))) \<and>
   (f \<in> set (scanned_files (os_walk mp)) \<and> P (fst f) = Inl e
      \<longrightarrow> (\<exists>e'. extract_routes_from_module os_walk P c mp app = Inl e')) \<and>
   (scanned_files (os_walk mp) = pre @ f # post \<and>
    (\<forall>g\<in>set pre. \<exists>rs. extract_routes_from_file P c (fst g) (snd g) app = Inr rs) \<and>
    extract_routes_from_file P c (fst f) (snd f) app = Inl e
      \<longrightarrow> extract_routes_from_module os_walk P c mp app = Inl e)"
proof -
  let ?step = "file_step P c app"
  let ?files = "scanned_files (os_walk mp)"
  have scan: "extract_routes_from_module os_walk P c mp app = for_extend ?step ?files"
    by (simp add: extract_routes_from_module_def dirs_loop_for_extend)
  have all_ok: "for_extend ?step ?files = Inr (concat (map (\<lambda>f. projr (?step f)) ?files))"
    if "\<forall>f\<in>set ?files. \<exists>rs. extract_routes_from_file P c (fst f) (snd f) app = Inr rs"
    using that by (intro for_extend_all_Inr) (simp add: file_step_def)
  have parse_bad: "\<exists>e'. for_extend ?step ?files = Inl e'"
    if "f \<in> set ?files" and "P (fst f) = Inl e"
  proof -
    from that(2) have "?step f = Inl e"
      by (simp add: file_step_def extract_routes_from_file_def)
    with that(1) show ?thesis by (rule for_extend_Inl_mem)
  qed
  have first_bad: "for_extend ?step ?files = Inl e"
    if "?files = pre @ f # post"
      and "\<forall>g\<in>set pre. \<exists>rs. extract_routes_from_file P c (fst g) (snd g) app = Inr rs"
      and "extract_routes_from_file P c (fst f) (snd f) app = Inl e"
  proof -
    have "for_extend ?step (pre @ f # post) = Inl e"
      using that(2,3) by (intro for_extend_first_error) (simp_all add: file_step_def)
    with that(1) show ?thesis by simp
  qed
  from all_ok parse_bad first_bad show ?thesis
    unfolding scan file_step_def by blast
qed

theorem module_scan_all_or_nothing_witness:
  "extract_routes_from_module shop_walk shop_parse id ''shop'' ''shop'' =
     Inr (concat (map (\<lambda>f. projr (extract_routes_from_file shop_parse id (fst f) (snd f) ''shop''))
                    (scanned_files (shop_walk ''shop'')))) \<and>
   scanned_files (mixed_walk ''shop'') = [(''shop/orders.py'', ''orders''), (''shop/api/broken.py'', ''broken'')] \<and>
   extract_routes_from_module mixed_walk mixed_parse id ''shop'' ''shop'' = Inl SyntaxError"
proof -
  have files: "scanned_files (shop_walk ''shop'') = [(''shop/orders.py'', ''orders'')]"
    by (simp add: scanned_files_def shop_walk_def eval_defs)
  have ok: "\<forall>f\<in>set (scanned_files (shop_walk ''shop'')).
              \<exists>rs. extract_routes_from_file shop_parse id (fst f) (snd f) ''shop'' = Inr rs"
    by (simp add: files shop_orders_routes)
  have mixed: "scanned_files (mixed_walk ''shop'') =
      [(''shop/orders.py'', ''orders'')] @ (''shop/api/broken.py'', ''broken'') # []"
    by (simp add: scanned_files_def mixed_walk_def eval_defs)
  have pre: "\<forall>g\<in>set [(''shop/orders.py'', ''orders'')].
               \<exists>rs. extract_routes_from_file mixed_parse id (fst g) (snd g) ''shop'' = Inr rs"
    by (simp add: eval_defs mixed_parse_def orders_py_def create_order_def)
  have bad: "mixed_parse (fst (''shop/api/broken.py'', ''broken'')) = Inl SyntaxError"
    by (simp add: mixed_parse_def)
  then have bad': "extract_routes_from_file mixed_parse id (fst (''shop/api/broken.py'', ''broken''))
      (snd (''shop/api/broken.py'', ''broken'')) ''shop'' = Inl SyntaxError"
    by (simp add: extract_routes_from_file_def)
  from ok module_scan_all_or_nothing [of shop_walk "''shop''" shop_parse id "''shop''"]
  have one: "extract_routes_from_module shop_walk shop_parse id ''shop'' ''shop'' =
     Inr (concat (map (\<lambda>f. projr (extract_routes_from_file shop_parse id (fst f) (snd f) ''shop''))
                    (scanned_files (shop_walk ''shop''))))"
    by blast
  from mixed pre bad'
    module_scan_all_or_nothing [of mixed_walk "''shop''" mixed_parse id "''shop''"
      "(''shop/api/broken.py'', ''broken'')" SyntaxError "[(''shop/orders.py'', ''orders'')]" "[]"]
  have two: "extract_routes_from_module mixed_walk mixed_parse id ''shop'' ''shop'' = Inl SyntaxError"
    by blast
  from one mixed two show ?thesis by simp
qed

lemma users_routes:
  "extract_routes_from_file users_parse id ''MyApp/users.py'' ''users'' ''MyApp'' =
     Inr [\<lparr>function_name = ''list_users'',
           path = ''/api/methods/myapp.api.users.list_users'',
           method = [Str ''GET''],
           params =
             [\<lparr>name = ''limit'', param_in = ''query'', required = False,
               schema = [(''type'', ''string'')]\<rparr>,
              \<lparr>name = ''offset'', param_in = ''query'', required = True,
               schema = [(''type'', ''string'')]\<rparr>],
           doc = ''Return all users.'', responses = [], tag = ''users''\<rparr>]"
  by (simp add: eval_defs users_parse_def list_users_def)

lemma files_routes:
  "extract_routes_from_file files_parse id ''shop/files.py'' ''files'' ''shop'' =
     Inr [\<lparr>function_name = ''upload'',
           path = ''/api/methods/shop.api.files.upload'',
           method = [Str ''POST''],
           params =
             [\<lparr>name = ''name'', param_in = ''body'', required = True,
               schema = [(''type'', ''string'')]\<rparr>],
           doc = [], responses = [], tag = ''files''\<rparr>]"
  by (simp add: eval_defs files_parse_def upload_def)

lemma make_route_fields:
  assumes "make_route c fn app nm a body kws = Inr r"
  shows "function_name r = nm"
    and "path r = ''/api/methods/'' @ lower app @ ''.api.'' @ fn @ ''.'' @ nm"
    and "params r = make_params (method r) a"
    and "tag r = fn"
    and "responses r = []"
  using assms by (auto simp: make_route_def split: sum.splits)

lemma make_params_param_in:
  "p \<in> set (make_params ms a) \<Longrightarrow>
     param_in p = (if Str ''POST'' \<in> set ms \<or> Str ''PUT'' \<in> set ms then ''body'' else ''query'')"
  by (auto simp: make_params_def make_param_def Let_def)

lemma make_params_schema:
  "p \<in> set (make_params ms a) \<Longrightarrow> schema p = [(''type'', ''string'')]"
  by (auto simp: make_params_def make_param_def Let_def)

lemma make_params_names: "map name (make_params ms a) = map arg (args a)"
proof -
  have len: "length (args a) \<le> length (padded_defaults a)"
    by (simp add: padded_defaults_def)
  have "map name (make_params ms a) = map (\<lambda>p. arg (fst p)) (zip (args a) (padded_defaults a))"
    by (simp add: make_params_def make_param_def Let_def)
  also have "\<dots> = map arg (map fst (zip (args a) (padded_defaults a)))"
    by simp
  also have "map fst (zip (args a) (padded_defaults a)) = args a"
    using len by (simp add: map_fst_zip_take)
  finally show ?thesis .
qed

text \<open>
  C6: all parameters of a route have the same location, \<^verbatim>\<open>body\<close> if \<^verbatim>\<open>"POST"\<close> or
  \<^verbatim>\<open>"PUT"\<close> occurs anywhere in the route's methods and \<^verbatim>\<open>query\<close> otherwise; with
  methods \<^verbatim>\<open>["GET"]\<close> every parameter is in \<^verbatim>\<open>query\<close>, with \<^verbatim>\<open>["POST"]\<close> in
  \<^verbatim>\<open>body\<close>.
\<close>

theorem params_share_location:
  assumes "extract_routes_from_file P c fp fn app = Inr routes"
    and "r \<in> set routes" and "p \<in> set (params r)"
  shows "param_in p =
           (if Str ''POST'' \<in> set (method r) \<or> Str ''PUT'' \<in> set (method r)
            then ''body'' else ''query'') \<and>
         (method r = [Str ''GET''] \<longrightarrow> param_in p = ''query'') \<and>
         (method r = [Str ''POST''] \<longrightarrow> param_in p = ''body'')"
proof -
  from extract_routes_mem [OF assms(1,2)] obtain nm a body kws where
    mk: "make_route c fn app nm a body kws = Inr r"
    by blast
  from assms(3) make_route_fields(3) [OF mk] have "p \<in> set (make_params (method r) a)"
    by simp
  from make_params_param_in [OF this] show ?thesis
    by simp
qed

theorem params_share_location_witness:
  "map param_in (params (hd (projr
      (extract_routes_from_file users_parse id ''MyApp/users.py'' ''users'' ''MyApp'')))) =
     [''query'', ''query''] \<and>
   map param_in (params (hd (projr
      (extract_routes_from_file shop_parse id ''shop/orders.py'' ''orders'' ''shop'')))) =
     [''body'', ''body'']"
proof -
  let ?u = "hd (projr (extract_routes_from_file users_parse id ''MyApp/users.py'' ''users'' ''MyApp''))"
  let ?o = "hd (projr (extract_routes_from_file shop_parse id ''shop/orders.py'' ''orders'' ''shop''))"
  have u: "?u \<in> set [?u]" and o: "?o \<in> set [?o]"
    by simp_all
  have ur: "extract_routes_from_file users_parse id ''MyApp/users.py'' ''users'' ''MyApp'' = Inr [?u]"
    by (simp add: users_routes)
  have or: "extract_routes_from_file shop_parse id ''shop/orders.py'' ''orders'' ''shop'' = Inr [?o]"
    by (simp add: shop_orders_routes)
  have um: "method ?u = [Str ''GET'']" and om: "method ?o = [Str ''POST'']"
    by (simp_all add: users_routes shop_orders_routes)
  have "\<forall>p\<in>set (params ?u). param_in p = ''query''"
    using params_share_location [OF ur u] um by blast
  moreover have "\<forall>p\<in>set (params ?o). param_in p = ''body''"
    using params_share_location [OF or o] om by blast
  moreover have "length (params ?u) = 2" and "length (params ?o) = 2"
    by (simp_all add: users_routes shop_orders_routes)
  ultimately show ?thesis
    by (auto simp: map_eq_Cons_conv length_Suc_conv numeral_2_eq_2)
qed

text \<open>
  C7: the path of a route is \<^verbatim>\<open>/api/methods/\<close>, the lower-cased app name, \<^verbatim>\<open>.api.\<close>,
  the file base name, a dot and the function name; only the app name is lower-cased. The
  function name is the name of a function definition of the file. App \<^verbatim>\<open>MyApp\<close>, file
  \<^verbatim>\<open>users\<close> and function \<^verbatim>\<open>list_users\<close> give
  \<^verbatim>\<open>/api/methods/myapp.api.users.list_users\<close>.
\<close>

theorem route_path_formula:
  assumes "extract_routes_from_file P c fp fn app = Inr routes" and "r \<in> set routes"
  shows "path r = ''/api/methods/'' @ lower app @ ''.api.'' @ fn @ ''.'' @ function_name r \<and>
         (\<exists>tree nm a body ds. P fp = Inr tree \<and> FunctionDef nm a body ds \<in> set (walk [tree]) \<and>
            function_name r = nm)"
proof -
  from extract_routes_mem [OF assms] obtain tree nm a body ds kws where
    tree: "P fp = Inr tree" and fd: "FunctionDef nm a body ds \<in> set (walk [tree])"
    and mk: "make_route c fn app nm a body kws = Inr r"
    by blast
  from make_route_fields(1,2) [OF mk] tree fd show ?thesis
    by auto
qed

theorem route_path_formula_witness:
  "path (hd (projr (extract_routes_from_file users_parse id ''MyApp/users.py'' ''users'' ''MyApp''))) =
     ''/api/methods/myapp.api.users.list_users'' \<and>
   ''/api/methods/'' @ lower ''MyApp'' @ ''.api.'' @ ''users'' @ ''.'' @ ''list_users'' =
     ''/api/methods/myapp.api.users.list_users''"
proof -
  let ?u = "hd (projr (extract_routes_from_file users_parse id ''MyApp/users.py'' ''users'' ''MyApp''))"
  have ur: "extract_routes_from_file users_parse id ''MyApp/users.py'' ''users'' ''MyApp'' = Inr [?u]"
    by (simp add: users_routes)
  have u: "?u \<in> set [?u]"
    by simp
  have nm: "function_name ?u = ''list_users''"
    by (simp add: users_routes)
  have lw: "lower ''MyApp'' = ''myapp''"
    by (simp add: lower_def lower_char_def char_of_def bit_Suc_0_iff)
  from route_path_formula [OF ur u] nm lw show ?thesis
    by simp
qed

lemma for_extend_filter:
  "(\<And>x. \<not> Q x \<Longrightarrow> f x = Inr []) \<Longrightarrow> for_extend f (filter Q xs) = for_extend f xs"
  by (induction xs) (auto split: sum.splits)

lemma node_routes_not_FunctionDef: "\<not> is_FunctionDef n \<Longrightarrow> node_routes c fn app n = Inr []"
  by (cases n) simp_all

text \<open>
  C9: only plain function definitions produce records. The node of an asynchronous
  function definition yields no route, whatever its decorators, and the routes of a file
  are those of the plain function definitions of its walk.
\<close>

theorem async_defs_yield_no_route:
  "node_routes c fn app (AsyncFunctionDef nm a body ds) = Inr [] \<and>
   extract_routes_from_file P c fp fn app =
     (case P fp of
        Inl e \<Rightarrow> Inl e
      | Inr tree \<Rightarrow> walk_loop c fn app (filter is_FunctionDef (walk [tree])))"
proof -
  have eq: "walk_loop c fn app (filter is_FunctionDef ns) = walk_loop c fn app ns" for ns
    unfolding walk_loop_for_extend
    by (rule for_extend_filter) (rule node_routes_not_FunctionDef)
  show ?thesis
    by (cases "P fp") (simp_all add: extract_routes_from_file_def eq del: walk.simps)
qed

theorem async_defs_yield_no_route_witness:
  "whitelist_keywords (whitelist_call []) = Some [] \<and>
   node_routes id ''jobs'' ''shop'' poll = Inr [] \<and>
   extract_routes_from_file jobs_parse id ''shop/jobs.py'' ''jobs'' ''shop'' = Inr []"
proof -
  have "filter is_FunctionDef (walk [Other [Other [], poll]]) = []"
    by (simp add: poll_def)
  with async_defs_yield_no_route [of id "''jobs''" "''shop''" "''poll''" "plain_arguments [''job''] []"
      "[Other []]" "[whitelist_call []]" jobs_parse "''shop/jobs.py''"]
  show ?thesis
    by (simp add: poll_def jobs_parse_def whitelist_call_def)
qed

text \<open>
  C10: the parameters of a route are exactly the plain positional-or-keyword parameters
  of its function (\<^verbatim>\<open>node.args.args\<close>), in order; positional-only and keyword-only
  parameters, \<^verbatim>\<open>*args\<close> and \<^verbatim>\<open>**kwargs\<close> have no part in the list.
\<close>

theorem only_plain_parameters:
  assumes "extract_routes_from_file P c fp fn app = Inr routes" and "r \<in> set routes"
  shows "\<exists>tree nm a body ds. P fp = Inr tree \<and> FunctionDef nm a body ds \<in> set (walk [tree]) \<and>
           function_name r = nm \<and> map name (params r) = map arg (args a) \<and>
           params r = make_params (method r)
              (a\<lparr>posonlyargs := [], vararg := None, kwonlyargs := [], kw_defaults := [],
                 kwarg := None\<rparr>)"
proof -
  from extract_routes_mem [OF assms] obtain tree nm a body ds kws where
    tree: "P fp = Inr tree" and fd: "FunctionDef nm a body ds \<in> set (walk [tree])"
    and mk: "make_route c fn app nm a body kws = Inr r"
    by blast
  have ps: "params r = make_params (method r) a"
    by (rule make_route_fields(3) [OF mk])
  have "map name (params r) = map arg (args a)"
    by (simp add: ps make_params_names)
  moreover have "params r = make_params (method r)
      (a\<lparr>posonlyargs := [], vararg := None, kwonlyargs := [], kw_defaults := [], kwarg := None\<rparr>)"
    by (simp add: ps make_params_def padded_defaults_def)
  ultimately show ?thesis
    using tree fd make_route_fields(1) [OF mk] by blast
qed

theorem only_plain_parameters_witness:
  "map name (params (hd (projr
      (extract_routes_from_file files_parse id ''shop/files.py'' ''files'' ''shop'')))) = [''name'']"
proof -
  let ?f = "hd (projr (extract_routes_from_file files_parse id ''shop/files.py'' ''files'' ''shop''))"
  have fr: "extract_routes_from_file files_parse id ''shop/files.py'' ''files'' ''shop'' = Inr [?f]"
    by (simp add: files_routes)
  have f: "?f \<in> set [?f]"
    by simp
  from only_plain_parameters [OF fr f] obtain tree nm a body ds where
    tree: "files_parse ''shop/files.py'' = Inr tree"
    and fd: "FunctionDef nm a body ds \<in> set (walk [tree])"
    and names: "map name (params ?f) = map arg (args a)"
    by blast
  from tree fd have "a = \<lparr>posonlyargs = [\<lparr>arg = ''owner''\<rparr>], args = [\<lparr>arg = ''name''\<rparr>],
        vararg = Some \<lparr>arg = ''parts''\<rparr>, kwonlyargs = [\<lparr>arg = ''private''\<rparr>],
        kw_defaults = [None], kwarg = Some \<lparr>arg = ''extra''\<rparr>, defaults = []\<rparr>"
    by (auto simp: files_parse_def upload_def)
  with names show ?thesis
    by simp
qed

section \<open>Properties of the Spec Synthesizer\<close>

lemma properties_dom: "dom (properties ps d) = dom d \<union> name ` set ps"
  by (induction ps arbitrary: d) auto

lemma properties_Some:
  "properties ps d k = Some s \<Longrightarrow> d k = Some s \<or> (\<exists>p\<in>set ps. name p = k \<and> schema p = s)"
  by (induction ps arbitrary: d) (fastforce split: if_splits)+

lemma methods_loop_Cons:
  "methods_loop r (m # ms) ps =
     (case lower_method m of
        Inl e \<Rightarrow> Inl e
      | Inr key \<Rightarrow>
          methods_loop r ms
            (ps(path r \<mapsto> (case ps (path r) of None \<Rightarrow> Map.empty | Some ops \<Rightarrow> ops)
                              (key \<mapsto> operation_of r m))))"
  by (simp add: Let_def split: sum.splits)

lemma from_routes_update:
  assumes "from_routes rs ps" and "r \<in> set rs" and "m \<in> set (method r)"
    and "lower_method m = Inr key"
  shows "from_routes rs
           (ps(path r \<mapsto> (case ps (path r) of None \<Rightarrow> Map.empty | Some ops \<Rightarrow> ops)
                             (key \<mapsto> operation_of r m)))"
  unfolding from_routes_def
proof (intro allI impI)
  fix p ops k op
  assume h: "(ps(path r \<mapsto> (case ps (path r) of None \<Rightarrow> Map.empty | Some ops \<Rightarrow> ops)
                (key \<mapsto> operation_of r m))) p = Some ops \<and> ops k = Some op"
  show "\<exists>r\<in>set rs. \<exists>m\<in>set (method r). p = path r \<and> lower_method m = Inr k \<and> op = operation_of r m"
  proof (cases "p = path r")
    case False
    with h assms(1) show ?thesis
      unfolding from_routes_def by auto
  next
    case True
    show ?thesis
    proof (cases "k = key")
      case True
      with \<open>p = path r\<close> h have "op = operation_of r m"
        by auto
      with \<open>p = path r\<close> \<open>k = key\<close> assms(2,3,4) show ?thesis
        by blast
    next
      case False
      with \<open>p = path r\<close> h obtain old where "ps (path r) = Some old" and "old k = Some op"
        by (auto split: option.splits)
      with assms(1) \<open>p = path r\<close> show ?thesis
        unfolding from_routes_def by blast
    qed
  qed
qed

lemma methods_loop_from_routes:
  "methods_loop r ms ps = Inr ps' \<Longrightarrow> set ms \<subseteq> set (method r) \<Longrightarrow> r \<in> set rs \<Longrightarrow>
     from_routes rs ps \<Longrightarrow> from_routes rs ps'"
proof (induction ms arbitrary: ps)
  case Nil
  then show ?case by simp
next
  case (Cons m ms)
  let ?next = "\<lambda>key. ps(path r \<mapsto> (case ps (path r) of None \<Rightarrow> Map.empty | Some ops \<Rightarrow> ops)
                                   (key \<mapsto> operation_of r m))"
  from Cons.prems(1) obtain key where key: "lower_method m = Inr key"
    and rest: "methods_loop r ms (?next key) = Inr ps'"
    unfolding methods_loop_Cons by (auto split: sum.splits)
  have m: "m \<in> set (method r)" and ms: "set ms \<subseteq> set (method r)"
    using Cons.prems(2) by simp_all
  have "from_routes rs (?next key)"
    using Cons.prems(4,3) m key by (rule from_routes_update)
  with rest ms Cons.prems(3) show ?case
    by (rule Cons.IH)
qed

lemma routes_loop_from_routes:
  "routes_loop rs (ps, ts) = Inr (ps', ts') \<Longrightarrow> set rs \<subseteq> set all \<Longrightarrow> from_routes all ps \<Longrightarrow>
     from_routes all ps'"
proof (induction rs arbitrary: ps ts)
  case Nil
  then show ?case by simp
next
  case (Cons r rs)
  from Cons.prems(1) obtain ps1 where ml: "methods_loop r (method r) ps = Inr ps1"
    and rest: "routes_loop rs (ps1, insert (tag r) ts) = Inr (ps', ts')"
    by (auto split: sum.splits)
  from Cons.prems(2) have r: "r \<in> set all" and rs: "set rs \<subseteq> set all"
    by simp_all
  have "from_routes all ps1"
    using ml _ r Cons.prems(3) by (rule methods_loop_from_routes) simp
  with rest rs show ?case
    by (rule Cons.IH)
qed

lemma routes_loop_tags:
  "routes_loop rs (ps, ts) = Inr (ps', ts') \<Longrightarrow> ts' = ts \<union> tag ` set rs"
  by (induction rs arbitrary: ps ts) (auto split: sum.splits)

lemma lower_POST: "lower ''POST'' = ''post''"
  by (simp add: lower_def lower_char_def char_of_def bit_Suc_0_iff)

lemma lower_PUT: "lower ''PUT'' = ''put''"
  by (simp add: lower_def lower_char_def char_of_def bit_Suc_0_iff)

lemma lower_GET: "lower ''GET'' = ''get''"
  by (simp add: lower_def lower_char_def char_of_def bit_Suc_0_iff)

lemma generate_from_routes:
  assumes "generate_openapi_spec set_iter routes app = Inr d"
    and "paths d p = Some ops" and "ops k = Some op"
  shows "\<exists>r\<in>set routes. \<exists>m\<in>set (method r).
           p = path r \<and> lower_method m = Inr k \<and> op = operation_of r m"
proof -
  from assms(1) obtain ts where loop: "routes_loop routes (Map.empty, {}) = Inr (paths d, ts)"
    by (auto simp: generate_openapi_spec_def split: sum.splits prod.splits)
  have "from_routes routes Map.empty"
    by (simp add: from_routes_def)
  with loop have "from_routes routes (paths d)"
    by (intro routes_loop_from_routes [OF loop]) simp_all
  with assms(2,3) show ?thesis
    unfolding from_routes_def by blast
qed

lemma last_writer_append:
  "last_writer (xs @ ys) p key =
     (case last_writer ys p key of Some op \<Rightarrow> Some op | None \<Rightarrow> last_writer xs p key)"
  by (induction xs) (auto split: option.splits)

lemma last_writer_mem:
  "(r, m) \<in> set xs \<Longrightarrow> lower_method m = Inr key \<Longrightarrow> \<exists>op. last_writer xs (path r) key = Some op"
  by (induction xs) (auto split: option.splits)

lemma last_writer_Some:
  "last_writer xs p key = Some op \<Longrightarrow>
     \<exists>r m. (r, m) \<in> set xs \<and> path r = p \<and> lower_method m = Inr key \<and> op = operation_of r m"
proof (induction xs)
  case Nil
  then show ?case by simp
next
  case (Cons rm xs)
  show ?case
  proof (cases "last_writer xs p key")
    case (Some op')
    with Cons.prems have "last_writer xs p key = Some op"
      by simp
    from Cons.IH [OF this] show ?thesis
      by auto
  next
    case None
    with Cons.prems have "path (fst rm) = p" and "lower_method (snd rm) = Inr key"
      and "op = operation_of (fst rm) (snd rm)"
      by (auto split: if_splits)
    then have "(fst rm, snd rm) \<in> set (rm # xs) \<and> path (fst rm) = p \<and>
        lower_method (snd rm) = Inr key \<and> op = operation_of (fst rm) (snd rm)"
      by simp
    then show ?thesis
      by blast
  qed
qed

lemma methods_loop_lookup:
  "methods_loop r ms ps = Inr ps' \<Longrightarrow>
     lookup_operation ps' p key =
       (case last_writer (map (Pair r) ms) p key of
          Some op \<Rightarrow> Some op
        | None \<Rightarrow> lookup_operation ps p key)"
proof (induction ms arbitrary: ps)
  case Nil
  then show ?case by simp
next
  case (Cons m ms)
  let ?next = "\<lambda>k. ps(path r \<mapsto> (case ps (path r) of None \<Rightarrow> Map.empty | Some ops \<Rightarrow> ops)
                                 (k \<mapsto> operation_of r m))"
  from Cons.prems obtain k where k: "lower_method m = Inr k"
    and rest: "methods_loop r ms (?next k) = Inr ps'"
    unfolding methods_loop_Cons by (auto split: sum.splits)
  have step: "lookup_operation (?next k) p key =
      (if path r = p \<and> k = key then Some (operation_of r m) else lookup_operation ps p key)"
    by (auto simp: lookup_operation_def split: option.splits)
  from Cons.IH [OF rest] step k show ?case
    by (auto split: option.splits)
qed

lemma routes_loop_lookup:
  "routes_loop rs (ps, ts) = Inr (ps', ts') \<Longrightarrow>
     lookup_operation ps' p key =
       (case last_writer (route_methods rs) p key of
          Some op \<Rightarrow> Some op
        | None \<Rightarrow> lookup_operation ps p key)"
proof (induction rs arbitrary: ps ts)
  case Nil
  then show ?case by (simp add: route_methods_def)
next
  case (Cons r rs)
  from Cons.prems obtain ps1 where ml: "methods_loop r (method r) ps = Inr ps1"
    and rest: "routes_loop rs (ps1, insert (tag r) ts) = Inr (ps', ts')"
    by (auto split: sum.splits)
  have split: "route_methods (r # rs) = map (Pair r) (method r) @ route_methods rs"
    by (simp add: route_methods_def)
  from Cons.IH [OF rest] methods_loop_lookup [OF ml, of p key] show ?case
    unfolding split last_writer_append by (auto split: option.splits)
qed

lemma methods_loop_lowers:
  "methods_loop r ms ps = Inr ps' \<Longrightarrow> m \<in> set ms \<Longrightarrow> \<exists>k. lower_method m = Inr k"
proof (induction ms arbitrary: ps)
  case Nil
  then show ?case by simp
next
  case (Cons x xs)
  from Cons.prems(1) obtain k where k: "lower_method x = Inr k"
    and rest: "methods_loop r xs
        (ps(path r \<mapsto> (case ps (path r) of None \<Rightarrow> Map.empty | Some ops \<Rightarrow> ops)
                          (k \<mapsto> operation_of r x))) = Inr ps'"
    unfolding methods_loop_Cons by (auto split: sum.splits)
  show ?case
  proof (cases "m = x")
    case True
    with k show ?thesis by blast
  next
    case False
    with Cons.prems(2) have "m \<in> set xs" by simp
    with rest show ?thesis by (rule Cons.IH)
  qed
qed

lemma routes_loop_lowers:
  "routes_loop rs (ps, ts) = Inr st \<Longrightarrow> r \<in> set rs \<Longrightarrow> m \<in> set (method r) \<Longrightarrow>
     \<exists>k. lower_method m = Inr k"
proof (induction rs arbitrary: ps ts)
  case Nil
  then show ?case by simp
next
  case (Cons x xs)
  from Cons.prems(1) obtain ps1 where ml: "methods_loop x (method x) ps = Inr ps1"
    and rest: "routes_loop xs (ps1, insert (tag x) ts) = Inr st"
    by (auto split: sum.splits)
  show ?case
  proof (cases "r = x")
    case True
    with ml Cons.prems(3) show ?thesis
      by (auto dest: methods_loop_lowers)
  next
    case False
    with Cons.prems(2) have "r \<in> set xs" by simp
    with rest Cons.prems(3) show ?thesis
      by (intro Cons.IH [OF rest]) simp_all
  qed
qed

lemma generate_lookup:
  assumes "generate_openapi_spec set_iter routes app = Inr d"
  shows "lookup_operation (paths d) p key = last_writer (route_methods routes) p key"
proof -
  from assms obtain ts where loop: "routes_loop routes (Map.empty, {}) = Inr (paths d, ts)"
    by (auto simp: generate_openapi_spec_def split: sum.splits prod.splits)
  from routes_loop_lookup [OF loop, of p key] show ?thesis
    by (auto simp: lookup_operation_def split: option.splits)
qed

lemma generate_lowers:
  assumes "generate_openapi_spec set_iter routes app = Inr d"
    and "r \<in> set routes" and "m \<in> set (method r)"
  shows "\<exists>k. lower_method m = Inr k"
proof -
  from assms(1) obtain st where "routes_loop routes (Map.empty, {}) = Inr st"
    by (auto simp: generate_openapi_spec_def split: sum.splits)
  from routes_loop_lowers [OF this assms(2,3)] show ?thesis .
qed

lemma route_methods_mem: "(r, m) \<in> set (route_methods routes) \<longleftrightarrow> r \<in> set routes \<and> m \<in> set (method r)"
  by (auto simp: route_methods_def)

text \<open>
  C5: the operation generated for a route under a method has a request body if and only
  if the method is \<^verbatim>\<open>"POST"\<close> or \<^verbatim>\<open>"PUT"\<close>; for every other method the request body is
  null. When present, its JSON schema is an object schema whose properties are keyed by
  exactly the parameter names, each mapped to the schema of a parameter of that name (the
  string schema for the records of the Extractor), and whose required list is the list of
  the names of the required parameters. In a generated document every route has, under
  each of its methods, an operation at its path and the lower-cased method; the operation
  found there is that of the last route and method written to that place (the route's
  own when no other writes there), and it has a request body if and only if the method
  that wrote it is \<^verbatim>\<open>"POST"\<close> or \<^verbatim>\<open>"PUT"\<close>. Every operation of a generated document
  is the operation of one of the routes under one of its methods.
\<close>

theorem request_body_iff_post_or_put:
  "(requestBody (operation_of r m) \<noteq> None \<longleftrightarrow> m = Str ''POST'' \<or> m = Str ''PUT'') \<and>
   (m \<noteq> Str ''POST'' \<and> m \<noteq> Str ''PUT'' \<longrightarrow> requestBody (operation_of r m) = None) \<and>
   (m = Str ''POST'' \<or> m = Str ''PUT'' \<longrightarrow>
      (\<exists>sch. requestBody (operation_of r m) = Some \<lparr>content = [(''application/json'', sch)]\<rparr> \<and>
         rb_type sch = ''object'' \<and>
         dom (rb_properties sch) = name ` set (params r) \<and>
         (\<forall>k s. rb_properties sch k = Some s \<longrightarrow> (\<exists>p\<in>set (params r). name p = k \<and> schema p = s)) \<and>
         ((\<forall>p\<in>set (params r). schema p = [(''type'', ''string'')]) \<longrightarrow>
            (\<forall>p\<in>set (params r). rb_properties sch (name p) = Some [(''type'', ''string'')])) \<and>
         rb_required sch = map name (filter required (params r)))) \<and>
   (extract_routes_from_file P c fp fn app = Inr rs \<and> r \<in> set rs \<longrightarrow>
      (\<forall>p\<in>set (params r). schema p = [(''type'', ''string'')])) \<and>
   (generate_openapi_spec set_iter routes app' = Inr d \<and> paths d pth = Some ops \<and> ops k = Some op \<longrightarrow>
      (\<exists>r'\<in>set routes. \<exists>m'\<in>set (method r').
         pth = path r' \<and> lower_method m' = Inr k \<and> op = operation_of r' m')) \<and>
   (generate_openapi_spec set_iter routes app' = Inr d \<longrightarrow>
      lookup_operation (paths d) pth k = last_writer (route_methods routes) pth k) \<and>
   (generate_openapi_spec set_iter routes app' = Inr d \<and> r0 \<in> set routes \<and> m0 \<in> set (method r0) \<longrightarrow>
      (\<exists>key op'. lower_method m0 = Inr key \<and>
         lookup_operation (paths d) (path r0) key = Some op' \<and>
         (\<exists>r'\<in>set routes. \<exists>m'\<in>set (method r').
            path r' = path r0 \<and> lower_method m' = Inr key \<and> op' = operation_of r' m' \<and>
            (requestBody op' \<noteq> None \<longleftrightarrow> m' = Str ''POST'' \<or> m' = Str ''PUT'')) \<and>
         ((\<forall>r'\<in>set routes. \<forall>m'\<in>set (method r').
             path r' = path r0 \<and> lower_method m' = Inr key \<longrightarrow> r' = r0 \<and> m' = m0) \<longrightarrow>
            op' = operation_of r0 m0)))"
proof -
  let ?props = "properties (params r) Map.empty"
  have iff: "requestBody (operation_of r m) \<noteq> None \<longleftrightarrow> m = Str ''POST'' \<or> m = Str ''PUT''"
    by (simp add: operation_of_def)
  have none: "m \<noteq> Str ''POST'' \<and> m \<noteq> Str ''PUT'' \<longrightarrow> requestBody (operation_of r m) = None"
    by (simp add: operation_of_def)
  have dom: "dom ?props = name ` set (params r)"
    by (simp add: properties_dom)
  have val: "\<forall>k s. ?props k = Some s \<longrightarrow> (\<exists>p\<in>set (params r). name p = k \<and> schema p = s)"
    using properties_Some [of "params r" Map.empty] by auto
  have str: "(\<forall>p\<in>set (params r). schema p = [(''type'', ''string'')]) \<longrightarrow>
      (\<forall>p\<in>set (params r). ?props (name p) = Some [(''type'', ''string'')])"
  proof (intro impI ballI)
    fix p
    assume all: "\<forall>p\<in>set (params r). schema p = [(''type'', ''string'')]" and p: "p \<in> set (params r)"
    from p dom obtain s where s: "?props (name p) = Some s"
      by force
    with val obtain q where "q \<in> set (params r)" and "schema q = s"
      by blast
    with all s show "?props (name p) = Some [(''type'', ''string'')]"
      by simp
  qed
  have body: "m = Str ''POST'' \<or> m = Str ''PUT'' \<longrightarrow>
      (\<exists>sch. requestBody (operation_of r m) = Some \<lparr>content = [(''application/json'', sch)]\<rparr> \<and>
         rb_type sch = ''object'' \<and>
         dom (rb_properties sch) = name ` set (params r) \<and>
         (\<forall>k s. rb_properties sch k = Some s \<longrightarrow> (\<exists>p\<in>set (params r). name p = k \<and> schema p = s)) \<and>
         ((\<forall>p\<in>set (params r). schema p = [(''type'', ''string'')]) \<longrightarrow>
            (\<forall>p\<in>set (params r). rb_properties sch (name p) = Some [(''type'', ''string'')])) \<and>
         rb_required sch = map name (filter required (params r)))"
  proof
    assume pp: "m = Str ''POST'' \<or> m = Str ''PUT''"
    let ?sch = "\<lparr>rb_type = ''object'', rb_properties = ?props,
                 rb_required = map name (filter required (params r))\<rparr>"
    from pp have "requestBody (operation_of r m) = Some \<lparr>content = [(''application/json'', ?sch)]\<rparr>"
      by (auto simp: operation_of_def)
    moreover have "rb_type ?sch = ''object''" and "rb_properties ?sch = ?props"
      and "rb_required ?sch = map name (filter required (params r))"
      by simp_all
    ultimately show "\<exists>sch. requestBody (operation_of r m) = Some \<lparr>content = [(''application/json'', sch)]\<rparr> \<and>
         rb_type sch = ''object'' \<and>
         dom (rb_properties sch) = name ` set (params r) \<and>
         (\<forall>k s. rb_properties sch k = Some s \<longrightarrow> (\<exists>p\<in>set (params r). name p = k \<and> schema p = s)) \<and>
         ((\<forall>p\<in>set (params r). schema p = [(''type'', ''string'')]) \<longrightarrow>
            (\<forall>p\<in>set (params r). rb_properties sch (name p) = Some [(''type'', ''string'')])) \<and>
         rb_required sch = map name (filter required (params r))"
      using dom val str by (intro exI [of _ ?sch]) simp
  qed
  have extracted: "extract_routes_from_file P c fp fn app = Inr rs \<and> r \<in> set rs \<longrightarrow>
      (\<forall>p\<in>set (params r). schema p = [(''type'', ''string'')])"
  proof (intro impI ballI)
    fix p
    assume h: "extract_routes_from_file P c fp fn app = Inr rs \<and> r \<in> set rs" and p: "p \<in> set (params r)"
    from h extract_routes_mem [of P c fp fn app rs r] obtain nm a body kws where
      mk: "make_route c fn app nm a body kws = Inr r"
      by blast
    from p make_route_fields(3) [OF mk] have "p \<in> set (make_params (method r) a)"
      by simp
    then show "schema p = [(''type'', ''string'')]"
      by (rule make_params_schema)
  qed
  have doc: "generate_openapi_spec set_iter routes app' = Inr d \<and> paths d pth = Some ops \<and> ops k = Some op \<longrightarrow>
      (\<exists>r'\<in>set routes. \<exists>m'\<in>set (method r').
         pth = path r' \<and> lower_method m' = Inr k \<and> op = operation_of r' m')"
    using generate_from_routes [of set_iter routes app' d pth ops k op] by blast
  have last: "generate_openapi_spec set_iter routes app' = Inr d \<longrightarrow>
      lookup_operation (paths d) pth k = last_writer (route_methods routes) pth k"
    by (simp add: generate_lookup)
  have each: "generate_openapi_spec set_iter routes app' = Inr d \<and> r0 \<in> set routes \<and> m0 \<in> set (method r0) \<longrightarrow>
      (\<exists>key op'. lower_method m0 = Inr key \<and>
         lookup_operation (paths d) (path r0) key = Some op' \<and>
         (\<exists>r'\<in>set routes. \<exists>m'\<in>set (method r').
            path r' = path r0 \<and> lower_method m' = Inr key \<and> op' = operation_of r' m' \<and>
            (requestBody op' \<noteq> None \<longleftrightarrow> m' = Str ''POST'' \<or> m' = Str ''PUT'')) \<and>
         ((\<forall>r'\<in>set routes. \<forall>m'\<in>set (method r').
             path r' = path r0 \<and> lower_method m' = Inr key \<longrightarrow> r' = r0 \<and> m' = m0) \<longrightarrow>
            op' = operation_of r0 m0))"
  proof
    assume h: "generate_openapi_spec set_iter routes app' = Inr d \<and> r0 \<in> set routes \<and> m0 \<in> set (method r0)"
    then have gen: "generate_openapi_spec set_iter routes app' = Inr d"
      and r0: "r0 \<in> set routes" and m0: "m0 \<in> set (method r0)"
      by simp_all
    from generate_lowers [OF gen r0 m0] obtain key where key: "lower_method m0 = Inr key"
      by blast
    from r0 m0 have "(r0, m0) \<in> set (route_methods routes)"
      by (simp add: route_methods_mem)
    from last_writer_mem [OF this key] obtain op' where
      lw: "last_writer (route_methods routes) (path r0) key = Some op'"
      by blast
    with generate_lookup [OF gen] have found: "lookup_operation (paths d) (path r0) key = Some op'"
      by simp
    from last_writer_Some [OF lw] obtain r' m' where
      mem: "(r', m') \<in> set (route_methods routes)" and pr: "path r' = path r0"
      and lm: "lower_method m' = Inr key" and op': "op' = operation_of r' m'"
      by blast
    from mem have r': "r' \<in> set routes" and m': "m' \<in> set (method r')"
      by (simp_all add: route_methods_mem)
    have rb: "requestBody op' \<noteq> None \<longleftrightarrow> m' = Str ''POST'' \<or> m' = Str ''PUT''"
      by (simp add: op' operation_of_def)
    have writer: "\<exists>r'\<in>set routes. \<exists>m'\<in>set (method r').
            path r' = path r0 \<and> lower_method m' = Inr key \<and> op' = operation_of r' m' \<and>
            (requestBody op' \<noteq> None \<longleftrightarrow> m' = Str ''POST'' \<or> m' = Str ''PUT'')"
      using r' m' pr lm op' rb by blast
    have own: "(\<forall>r'\<in>set routes. \<forall>m'\<in>set (method r').
             path r' = path r0 \<and> lower_method m' = Inr key \<longrightarrow> r' = r0 \<and> m' = m0) \<longrightarrow>
            op' = operation_of r0 m0"
      using r' m' pr lm op' by blast
    from key found writer own show "\<exists>key op'. lower_method m0 = Inr key \<and>
         lookup_operation (paths d) (path r0) key = Some op' \<and>
         (\<exists>r'\<in>set routes. \<exists>m'\<in>set (method r').
            path r' = path r0 \<and> lower_method m' = Inr key \<and> op' = operation_of r' m' \<and>
            (requestBody op' \<noteq> None \<longleftrightarrow> m' = Str ''POST'' \<or> m' = Str ''PUT'')) \<and>
         ((\<forall>r'\<in>set routes. \<forall>m'\<in>set (method r').
             path r' = path r0 \<and> lower_method m' = Inr key \<longrightarrow> r' = r0 \<and> m' = m0) \<longrightarrow>
            op' = operation_of r0 m0)"
      by blast
  qed
  from iff none body extracted doc last each show ?thesis
    by (intro conjI)
qed

lemma sample_document:
  "generate_openapi_spec sorted_list_of_set [sample_route, cancel_route] ''shop'' =
     Inr \<lparr>openapi = ''3.0.0'',
          info = [(''title'', ''shop API''), (''version'', ''1.0.0'')],
          paths =
            [path sample_route \<mapsto> [Str ''post'' \<mapsto> operation_of sample_route (Str ''POST'')],
             path cancel_route \<mapsto>
               [Str ''get'' \<mapsto> operation_of cancel_route (Str ''GET''),
                Str ''put'' \<mapsto> operation_of cancel_route (Str ''PUT'')]],
          tags = map (\<lambda>t. [(''name'', t)]) (sorted_list_of_set {''orders''})\<rparr>"
  by (simp add: generate_openapi_spec_def Let_def lower_POST lower_PUT lower_GET
      sample_route_def cancel_route_def)

lemma upload_route_extracted:
  "extract_routes_from_file files_parse id ''shop/files.py'' ''files'' ''shop'' = Inr [upload_route]"
  by (simp add: files_routes upload_route_def)

theorem request_body_iff_post_or_put_witness:
  "requestBody (operation_of upload_route (Str ''POST'')) \<noteq> None \<and>
   requestBody (operation_of upload_route (Str ''GET'')) = None \<and>
   (\<exists>sch. requestBody (operation_of upload_route (Str ''POST'')) =
             Some \<lparr>content = [(''application/json'', sch)]\<rparr> \<and>
           dom (rb_properties sch) = {''name''} \<and>
           rb_properties sch ''name'' = Some [(''type'', ''string'')] \<and>
           rb_required sch = [''name'']) \<and>
   lookup_operation
     (paths (projr (generate_openapi_spec sorted_list_of_set [sample_route, cancel_route] ''shop'')))
     (path cancel_route) (Str ''put'') = Some (operation_of cancel_route (Str ''PUT'')) \<and>
   lookup_operation
     (paths (projr (generate_openapi_spec sorted_list_of_set [sample_route, cancel_route] ''shop'')))
     (path cancel_route) (Str ''get'') = Some (operation_of cancel_route (Str ''GET'')) \<and>
   lookup_operation
     (paths (projr (generate_openapi_spec sorted_list_of_set [sample_route, cancel_route] ''shop'')))
     (path sample_route) (Str ''post'') = Some (operation_of sample_route (Str ''POST'')) \<and>
   requestBody (operation_of cancel_route (Str ''PUT'')) \<noteq> None \<and>
   requestBody (operation_of cancel_route (Str ''GET'')) = None"
proof -
  let ?routes = "[sample_route, cancel_route]"
  let ?d = "projr (generate_openapi_spec sorted_list_of_set ?routes ''shop'')"
  let ?ops = "[Str ''get'' \<mapsto> operation_of cancel_route (Str ''GET''),
               Str ''put'' \<mapsto> operation_of cancel_route (Str ''PUT'')]"
  have gen: "generate_openapi_spec sorted_list_of_set ?routes ''shop'' = Inr ?d"
    by (simp add: sample_document)
  have mem: "cancel_route \<in> set ?routes" and put: "Str ''PUT'' \<in> set (method cancel_route)"
    by (simp_all add: cancel_route_def)
  have up: "upload_route \<in> set [upload_route]"
    by simp
  have names: "name ` set (params upload_route) = {''name''}"
    and req: "map name (filter required (params upload_route)) = [''name'']"
    and has_name: "\<lparr>name = ''name'', param_in = ''body'', required = True,
                    schema = [(''type'', ''string'')]\<rparr> \<in> set (params upload_route)"
    by (simp_all add: upload_route_def)
  have only: "\<forall>r'\<in>set ?routes. \<forall>m'\<in>set (method r').
      path r' = path cancel_route \<and> lower_method m' = Inr (Str ''put'') \<longrightarrow>
      r' = cancel_route \<and> m' = Str ''PUT''"
    by (simp add: sample_route_def cancel_route_def lower_POST lower_GET lower_PUT)
  note inst = request_body_iff_post_or_put [where r = upload_route and m = "Str ''POST''"
      and P = files_parse and c = id and fp = "''shop/files.py''" and fn = "''files''"
      and app = "''shop''" and rs = "[upload_route]" and set_iter = sorted_list_of_set
      and routes = ?routes and app' = "''shop''" and d = ?d and pth = "path cancel_route"
      and ops = ?ops and k = "Str ''get''" and op = "operation_of cancel_route (Str ''GET'')"
      and ?r0.0 = cancel_route and ?m0.0 = "Str ''PUT''"]
  note c1 = inst [THEN conjunct1]
  note c3 = inst [THEN conjunct2, THEN conjunct2, THEN conjunct1]
  note c4 = inst [THEN conjunct2, THEN conjunct2, THEN conjunct2, THEN conjunct1]
  note c6 = inst [THEN conjunct2, THEN conjunct2, THEN conjunct2, THEN conjunct2, THEN conjunct2,
      THEN conjunct1]
  note c7 = inst [THEN conjunct2, THEN conjunct2, THEN conjunct2, THEN conjunct2, THEN conjunct2,
      THEN conjunct2]
  from c1 have post: "requestBody (operation_of upload_route (Str ''POST'')) \<noteq> None"
    by simp
  have get: "requestBody (operation_of upload_route (Str ''GET'')) = None"
    using request_body_iff_post_or_put [where r = upload_route and m = "Str ''GET''", THEN conjunct1]
    by simp
  have strings: "\<forall>p\<in>set (params upload_route). schema p = [(''type'', ''string'')]"
    by (rule c4 [THEN mp, OF conjI [OF upload_route_extracted up]])
  have is_post: "Str ''POST'' = Str ''POST'' \<or> Str ''POST'' = Str ''PUT''"
    by simp
  from c3 [THEN mp, OF is_post] obtain sch where
    sch: "requestBody (operation_of upload_route (Str ''POST'')) =
            Some \<lparr>content = [(''application/json'', sch)]\<rparr>"
    and dm: "dom (rb_properties sch) = name ` set (params upload_route)"
    and st: "(\<forall>p\<in>set (params upload_route). schema p = [(''type'', ''string'')]) \<longrightarrow>
             (\<forall>p\<in>set (params upload_route). rb_properties sch (name p) = Some [(''type'', ''string'')])"
    and rq: "rb_required sch = map name (filter required (params upload_route))"
    by blast
  from st [THEN mp, OF strings] has_name
  have "rb_properties sch (name \<lparr>name = ''name'', param_in = ''body'', required = True,
          schema = [(''type'', ''string'')]\<rparr>) = Some [(''type'', ''string'')]"
    by (rule bspec)
  then have nm: "rb_properties sch ''name'' = Some [(''type'', ''string'')]"
    by simp
  have body: "\<exists>sch. requestBody (operation_of upload_route (Str ''POST'')) =
             Some \<lparr>content = [(''application/json'', sch)]\<rparr> \<and>
           dom (rb_properties sch) = {''name''} \<and>
           rb_properties sch ''name'' = Some [(''type'', ''string'')] \<and>
           rb_required sch = [''name'']"
    using sch dm [unfolded names] nm rq [unfolded req] by (intro exI [of _ sch] conjI)
  from c7 [THEN mp, OF conjI [OF gen conjI [OF mem put]]] obtain key op' where
    key: "lower_method (Str ''PUT'') = Inr key"
    and found: "lookup_operation (paths ?d) (path cancel_route) key = Some op'"
    and own: "(\<forall>r'\<in>set ?routes. \<forall>m'\<in>set (method r').
                path r' = path cancel_route \<and> lower_method m' = Inr key \<longrightarrow>
                r' = cancel_route \<and> m' = Str ''PUT'') \<longrightarrow>
              op' = operation_of cancel_route (Str ''PUT'')"
    by blast
  from key have k: "key = Str ''put''"
    by (simp add: lower_PUT)
  from own [unfolded k, THEN mp, OF only] have "op' = operation_of cancel_route (Str ''PUT'')" .
  with found k have at_put: "lookup_operation (paths ?d) (path cancel_route) (Str ''put'') =
      Some (operation_of cancel_route (Str ''PUT''))"
    by simp
  have "lookup_operation (paths ?d) (path cancel_route) (Str ''get'') =
      last_writer (route_methods ?routes) (path cancel_route) (Str ''get'')"
    by (rule c6 [THEN mp, OF gen])
  also have "\<dots> = Some (operation_of cancel_route (Str ''GET''))"
    by (simp add: route_methods_def sample_route_def cancel_route_def lower_POST lower_GET lower_PUT)
  finally have at_get: "lookup_operation (paths ?d) (path cancel_route) (Str ''get'') =
      Some (operation_of cancel_route (Str ''GET''))" .
  note c6' = request_body_iff_post_or_put [where set_iter = sorted_list_of_set and routes = ?routes
      and app' = "''shop''" and d = ?d and pth = "path sample_route" and k = "Str ''post''",
      THEN conjunct2, THEN conjunct2, THEN conjunct2, THEN conjunct2, THEN conjunct2,
      THEN conjunct1]
  have "lookup_operation (paths ?d) (path sample_route) (Str ''post'') =
      last_writer (route_methods ?routes) (path sample_route) (Str ''post'')"
    by (rule c6' [THEN mp, OF gen])
  also have "\<dots> = Some (operation_of sample_route (Str ''POST''))"
    by (simp add: route_methods_def sample_route_def cancel_route_def lower_POST lower_GET lower_PUT)
  finally have at_post: "lookup_operation (paths ?d) (path sample_route) (Str ''post'') =
      Some (operation_of sample_route (Str ''POST''))" .
  have cput: "requestBody (operation_of cancel_route (Str ''PUT'')) \<noteq> None"
    using request_body_iff_post_or_put [where r = cancel_route and m = "Str ''PUT''", THEN conjunct1]
    by simp
  have cget: "requestBody (operation_of cancel_route (Str ''GET'')) = None"
    using request_body_iff_post_or_put [where r = cancel_route and m = "Str ''GET''", THEN conjunct1]
    by simp
  from post get body at_put at_get at_post cput cget show ?thesis
    by (intro conjI)
qed

text \<open>
  C8: the global tags array of a generated document holds one entry per tag of the input
  records, each exactly once, and no other name. The order is that in which the tag set
  is iterated, which the language leaves open; the array is its image, whatever the
  order. Two routes of different files with the same tag give a single entry.
\<close>

theorem tags_deduplicated:
  assumes "\<And>S. finite S \<Longrightarrow> distinct (set_iter S) \<and> set (set_iter S) = S"
    and "generate_openapi_spec set_iter routes app = Inr d"
  shows "\<exists>names. tags d = map (\<lambda>t. [(''name'', t)]) names \<and> distinct names \<and>
           set names = tag ` set routes"
proof -
  from assms(2) obtain ps ts where loop: "routes_loop routes (Map.empty, {}) = Inr (ps, ts)"
    and tg: "tags d = map (\<lambda>t. [(''name'', t)]) (set_iter ts)"
    by (auto simp: generate_openapi_spec_def split: sum.splits prod.splits)
  from routes_loop_tags [OF loop] have ts: "ts = tag ` set routes"
    by simp
  then have "finite ts"
    by simp
  from assms(1) [OF this] ts tg show ?thesis
    by blast
qed

theorem tags_deduplicated_witness:
  "tag sample_route = tag cancel_route \<and> path sample_route \<noteq> path cancel_route \<and>
   tags (projr (generate_openapi_spec sorted_list_of_set [sample_route, cancel_route] ''shop'')) =
     [[(''name'', ''orders'')]]"
proof -
  let ?d = "projr (generate_openapi_spec sorted_list_of_set [sample_route, cancel_route] ''shop'')"
  have iter: "finite S \<Longrightarrow> distinct (sorted_list_of_set S) \<and> set (sorted_list_of_set S) = S"
    for S :: "string set"
    by simp
  have gen: "generate_openapi_spec sorted_list_of_set [sample_route, cancel_route] ''shop'' = Inr ?d"
    by (simp add: sample_document)
  from tags_deduplicated [of sorted_list_of_set, OF iter gen] obtain names where
    tg: "tags ?d = map (\<lambda>t. [(''name'', t)]) names" and dist: "distinct names"
    and st: "set names = tag ` set [sample_route, cancel_route]"
    by blast
  from st have st': "set names = {''orders''}"
    by (simp add: sample_route_def cancel_route_def)
  from dist have "length names = card (set names)"
    by (simp add: distinct_card)
  with st' have "length names = 1"
    by simp
  then obtain x where "names = [x]"
    by (cases names) auto
  with st' have "names = [''orders'']"
    by simp
  with tg show ?thesis
    by (simp add: sample_route_def cancel_route_def)
qed

section \<open>Further properties\<close>

lemma decorator_loop_no_marker:
  "(\<And>d. d \<in> set ds \<Longrightarrow> whitelist_keywords d = None) \<Longrightarrow>
     decorator_loop c fn app nm a body ds = Inr []"
  by (induction ds) simp_all

lemma node_routes_no_marker: "marker_calls n = 0 \<Longrightarrow> node_routes c fn app n = Inr []"
proof (cases n)
  case (FunctionDef nm a body ds)
  assume "marker_calls n = 0"
  with FunctionDef have "filter (\<lambda>d. whitelist_keywords d \<noteq> None) ds = []"
    by simp
  then have "\<And>d. d \<in> set ds \<Longrightarrow> whitelist_keywords d = None"
    by (simp add: filter_empty_conv)
  with FunctionDef show ?thesis
    by (simp add: decorator_loop_no_marker)
qed simp_all

lemma for_extend_all_empty:
  "(\<And>x. x \<in> set xs \<Longrightarrow> f x = Inr []) \<Longrightarrow> for_extend f xs = Inr []"
  by (induction xs) simp_all

text \<open>
  X1. The required flag follows the position of a parameter, not its default: the
  parameter at index \<open>i\<close> of \<^verbatim>\<open>node.args.args\<close> is marked required exactly when
  \<open>i\<close> is at least the number of defaults.
\<close>

theorem required_follows_position:
  assumes "i < length (args a)"
  shows "required (make_params ms a ! i) = (length (defaults a) \<le> i) \<and>
         name (make_params ms a ! i) = arg (args a ! i)"
proof -
  have len: "length (args a) \<le> length (padded_defaults a)"
    by (simp add: padded_defaults_def)
  with assms have i: "i < length (zip (args a) (padded_defaults a))"
    by simp
  have nth: "padded_defaults a ! i = (if i < length (defaults a) then Some (defaults a ! i) else None)"
    using assms by (simp add: padded_defaults_def nth_append)
  from i have "make_params ms a ! i = make_param ms (args a ! i, padded_defaults a ! i)"
    by (simp add: make_params_def)
  with nth show ?thesis
    by (simp add: make_param_def Let_def)
qed

theorem required_follows_position_witness:
  "required (make_params [Str ''POST''] (plain_arguments [''customer_id'', ''note''] [Constant NoneC]) ! 0)
     = False \<and>
   required (make_params [Str ''POST''] (plain_arguments [''customer_id'', ''note''] [Constant NoneC]) ! 1)
     = True"
proof -
  let ?a = "plain_arguments [''customer_id'', ''note''] [Constant NoneC]"
  have l0: "0 < length (args ?a)" and l1: "1 < length (args ?a)"
    by (simp_all add: plain_arguments_def)
  have d: "length (defaults ?a) = 1"
    by (simp add: plain_arguments_def)
  from required_follows_position [OF l0, of "[Str ''POST'']"]
    required_follows_position [OF l1, of "[Str ''POST'']"] d
  show ?thesis
    by simp
qed

text \<open>
  X2. A source file in which no function definition carries a marker call yields the
  empty sequence of records.
\<close>

theorem no_marker_no_routes:
  assumes "P fp = Inr tree" and "\<And>n. n \<in> set (walk [tree]) \<Longrightarrow> marker_calls n = 0"
  shows "extract_routes_from_file P c fp fn app = Inr []"
proof -
  have "for_extend (node_routes c fn app) (walk [tree]) = Inr []"
    by (rule for_extend_all_empty) (simp add: assms(2) node_routes_no_marker)
  with assms(1) show ?thesis
    by (simp add: extract_routes_from_file_def walk_loop_for_extend del: walk.simps)
qed

theorem no_marker_no_routes_witness:
  "whitelist_keywords (Attribute (Name ''frappe'') ''whitelist'') = None \<and>
   extract_routes_from_file helpers_parse id ''shop/helpers.py'' ''helpers'' ''shop'' = Inr []"
proof -
  have p: "helpers_parse ''shop/helpers.py'' = Inr (Other [Other [], bare])"
    by (simp add: helpers_parse_def)
  have "extract_routes_from_file helpers_parse id ''shop/helpers.py'' ''helpers'' ''shop'' = Inr []"
  proof (rule no_marker_no_routes [where P = helpers_parse and fp = "''shop/helpers.py''"
        and tree = "Other [Other [], bare]", OF p])
    fix n
    assume "n \<in> set (walk [Other [Other [], bare]])"
    then show "marker_calls n = 0"
      by (auto simp: bare_def)
  qed
  then show ?thesis
    by simp
qed

text \<open>
  X3. A record with no methods contributes no operation: it leaves the paths of the
  document as they are, and adds only its tag.
\<close>

theorem zero_methods_no_operation:
  assumes "method r = []"
  shows "routes_loop (r # rs) (ps, ts) = routes_loop rs (ps, insert (tag r) ts)"
  using assms by simp

theorem zero_methods_no_operation_witness:
  "routes_loop [sample_route\<lparr>method := []\<rparr>] (Map.empty, {}) = Inr (Map.empty, {''orders''})"
proof -
  have m: "method (sample_route\<lparr>method := []\<rparr>) = []"
    by simp
  from zero_methods_no_operation [OF m, of "[]" Map.empty "{}"] show ?thesis
    by (simp add: sample_route_def)
qed

text \<open>
  X4. The summary of a record is the first line of the docstring only: it holds no
  line boundary, it is a prefix of the cleaned docstring, and it is empty when the
  function has no docstring.
\<close>

theorem summary_is_first_line:
  "set (doc_summary c body) \<inter> set line_boundaries = {} \<and>
   (get_docstring c body = None \<longrightarrow> doc_summary c body = []) \<and>
   (get_docstring c body = Some d \<longrightarrow> (\<exists>rest. d = doc_summary c body @ rest))"
proof -
  have no_break: "set (first_line s) \<inter> set line_boundaries = {}" for s
    using set_takeWhileD [of _ "\<lambda>ch. ch \<notin> set line_boundaries" s]
    by (auto simp: first_line_def)
  have prefix: "\<exists>rest. s = first_line s @ rest" for s
    unfolding first_line_def by (metis takeWhile_dropWhile_id)
  have "doc_summary c body = [] \<or> (\<exists>s. doc_summary c body = first_line s)"
    by (auto simp: doc_summary_def Let_def)
  with no_break have one: "set (doc_summary c body) \<inter> set line_boundaries = {}"
    by (metis empty_set inf_bot_left)
  have two: "get_docstring c body = None \<longrightarrow> doc_summary c body = []"
    by (simp add: doc_summary_def)
  have three: "get_docstring c body = Some d \<longrightarrow> (\<exists>rest. d = doc_summary c body @ rest)"
    using prefix [of d] by (auto simp: doc_summary_def Let_def)
  from one two three show ?thesis
    by (intro conjI)
qed

theorem summary_is_first_line_witness:
  "doc_summary id [Expr (Constant (Str (''Return all users.'' @ [char_of (10::nat)] @ ''Details...'')))]
     = ''Return all users.'' \<and>
   doc_summary id [Other []] = []"
proof -
  let ?body = "[Expr (Constant (Str (''Return all users.'' @ [char_of (10::nat)] @ ''Details...'')))]"
  have "get_docstring id [Other []] = None"
    by simp
  with summary_is_first_line [of id "[Other []]"] have none: "doc_summary id [Other []] = []"
    by blast
  have "doc_summary id ?body = ''Return all users.''"
    by (simp add: doc_summary_def first_line_def line_boundaries_def char_of_def)
  with none show ?thesis
    by simp
qed

text \<open>
  X5. The document's metadata: the version string \<^verbatim>\<open>3.0.0\<close>, the title made of the
  app name as given (not lower-cased) and \<^verbatim>\<open>API\<close>, and the version \<^verbatim>\<open>1.0.0\<close>.
\<close>

theorem document_metadata:
  assumes "generate_openapi_spec set_iter routes app = Inr d"
  shows "openapi d = ''3.0.0'' \<and>
         info d = [(''title'', app @ '' API''), (''version'', ''1.0.0'')]"
  using assms by (auto simp: generate_openapi_spec_def split: sum.splits prod.splits)

theorem document_metadata_witness:
  "info (projr (generate_openapi_spec sorted_list_of_set [sample_route, cancel_route] ''shop'')) =
     [(''title'', ''shop API''), (''version'', ''1.0.0'')]"
proof -
  have "generate_openapi_spec sorted_list_of_set [sample_route, cancel_route] ''shop'' =
      Inr (projr (generate_openapi_spec sorted_list_of_set [sample_route, cancel_route] ''shop''))"
    by (simp add: sample_document)
  from document_metadata [OF this] show ?thesis
    by simp
qed

text \<open>
  X6. The Synthesizer returns a document whenever every method of every record is text
  or bytes; a method that is any other constant makes it raise \<^verbatim>\<open>AttributeError\<close>.
\<close>

lemma methods_loop_total:
  "(\<And>m. m \<in> set ms \<Longrightarrow> \<exists>k. lower_method m = Inr k) \<Longrightarrow> \<exists>ps'. methods_loop r ms ps = Inr ps'"
proof (induction ms arbitrary: ps)
  case Nil
  then show ?case by simp
next
  case (Cons m ms)
  from Cons.prems obtain k where k: "lower_method m = Inr k"
    by auto
  have "\<exists>ps'. methods_loop r ms ps1 = Inr ps'" for ps1
    by (rule Cons.IH) (simp add: Cons.prems)
  with k show ?case
    unfolding methods_loop_Cons by simp
qed

lemma routes_loop_total:
  "(\<And>r m. r \<in> set rs \<Longrightarrow> m \<in> set (method r) \<Longrightarrow> \<exists>k. lower_method m = Inr k) \<Longrightarrow>
     \<exists>st'. routes_loop rs (ps, ts) = Inr st'"
proof (induction rs arbitrary: ps ts)
  case Nil
  then show ?case by simp
next
  case (Cons r rs)
  have "\<exists>ps'. methods_loop r (method r) ps = Inr ps'"
    using Cons.prems by (intro methods_loop_total) auto
  then obtain ps' where ml: "methods_loop r (method r) ps = Inr ps'"
    by blast
  have "\<exists>st'. routes_loop rs (ps', insert (tag r) ts) = Inr st'"
    using Cons.prems by (intro Cons.IH) auto
  with ml show ?case
    by simp
qed

theorem synthesizer_returns_on_text_methods:
  "((\<forall>r\<in>set routes. \<forall>m\<in>set (method r). \<exists>s. m = Str s \<or> m = Bytes s) \<longrightarrow>
      (\<exists>d. generate_openapi_spec set_iter routes app = Inr d)) \<and>
   ((\<forall>s. m \<noteq> Str s) \<and> (\<forall>s. m \<noteq> Bytes s) \<longrightarrow>
      generate_openapi_spec set_iter [r\<lparr>method := [m]\<rparr>] app = Inl AttributeError)"
proof -
  have ok: "\<exists>d. generate_openapi_spec set_iter routes app = Inr d"
    if h: "\<forall>r\<in>set routes. \<forall>m\<in>set (method r). \<exists>s. m = Str s \<or> m = Bytes s"
  proof -
    have "\<exists>k. lower_method m = Inr k" if "r \<in> set routes" and "m \<in> set (method r)" for r m
      using h that by fastforce
    then have "\<exists>st'. routes_loop routes (Map.empty, {}) = Inr st'"
      by (intro routes_loop_total) blast
    then show ?thesis
      by (auto simp: generate_openapi_spec_def split: prod.splits)
  qed
  have bad: "generate_openapi_spec set_iter [r\<lparr>method := [m]\<rparr>] app = Inl AttributeError"
    if "(\<forall>s. m \<noteq> Str s) \<and> (\<forall>s. m \<noteq> Bytes s)"
  proof -
    from that have "lower_method m = Inl AttributeError"
      by (cases m) auto
    then show ?thesis
      by (simp add: generate_openapi_spec_def Let_def)
  qed
  from ok bad show ?thesis
    by blast
qed

theorem synthesizer_returns_on_text_methods_witness:
  "(\<exists>d. generate_openapi_spec sorted_list_of_set [sample_route, cancel_route] ''shop'' = Inr d) \<and>
   generate_openapi_spec sorted_list_of_set [sample_route\<lparr>method := [NoneC]\<rparr>] ''shop'' =
     Inl AttributeError"
proof -
  have texts: "\<forall>r\<in>set [sample_route, cancel_route]. \<forall>m\<in>set (method r). \<exists>s. m = Str s \<or> m = Bytes s"
    by (simp add: sample_route_def cancel_route_def)
  have other: "(\<forall>s. NoneC \<noteq> Str s) \<and> (\<forall>s. NoneC \<noteq> Bytes s)"
    by simp
  from texts other
    synthesizer_returns_on_text_methods [of "[sample_route, cancel_route]" sorted_list_of_set
      "''shop''" NoneC sample_route]
  show ?thesis
    by blast
qed

end
